theory Spec2Isabelle
  imports Main
begin

section \<open>JavaScript strings\<close>

text \<open>
  A JavaScript string is modelled as a \<^typ>\<open>string\<close>, a list of 8-bit code units
  (the Latin-1 range of UTF-16).  The built-in string methods the program calls are
  written out here as executable functions.
\<close>

text \<open>The characters removed by \<^verbatim>\<open>trim()\<close> and matched by \<^verbatim>\<open>\s\<close>: tab, line feed,
  vertical tab, form feed, carriage return, space and no-break space.\<close>

definition isWhitespace :: "char \<Rightarrow> bool" where
  "isWhitespace c \<longleftrightarrow>
     c = CHR 0x09 \<or> c = CHR 0x0A \<or> c = CHR 0x0B \<or> c = CHR 0x0C \<or> c = CHR 0x0D \<or>
     c = CHR 0x20 \<or> c = CHR 0xA0"

definition trimStart :: "string \<Rightarrow> string" where
  "trimStart s = dropWhile isWhitespace s"

definition trimEnd :: "string \<Rightarrow> string" where
  "trimEnd s = rev (dropWhile isWhitespace (rev s))"

definition trim :: "string \<Rightarrow> string" where
  "trim s = trimEnd (trimStart s)"

text \<open>\<^verbatim>\<open>s.split(c)\<close> for a one-character separator: never the empty list.\<close>

fun splitOn :: "char \<Rightarrow> string \<Rightarrow> string list" where
  "splitOn c [] = [[]]"
| "splitOn c (x # xs) =
     (if x = c then [] # splitOn c xs
      else (case splitOn c xs of [] \<Rightarrow> [[x]] | l # ls \<Rightarrow> (x # l) # ls))"

text \<open>\<^verbatim>\<open>parts.join(sep)\<close>.\<close>

fun joinWith :: "string \<Rightarrow> string list \<Rightarrow> string" where
  "joinWith sep [] = []"
| "joinWith sep [x] = x"
| "joinWith sep (x # y # ys) = x @ sep @ joinWith sep (y # ys)"

text \<open>\<open>s\<close> occurs in \<open>t\<close> at index \<open>i\<close> (plain substring comparison).\<close>

definition occursAt :: "string \<Rightarrow> string \<Rightarrow> nat \<Rightarrow> bool" where
  "occursAt s t i \<longleftrightarrow> i + length s \<le> length t \<and> take (length s) (drop i t) = s"

text \<open>\<^verbatim>\<open>t.lastIndexOf(s)\<close>: the candidates \<open>k - 1, \<dots>, 0\<close> are tried in this order;
  \<open>None\<close> stands for \<open>-1\<close>.\<close>

fun lastIndexFrom :: "string \<Rightarrow> string \<Rightarrow> nat \<Rightarrow> nat option" where
  "lastIndexFrom t s 0 = None"
| "lastIndexFrom t s (Suc k) =
     (if take (length s) (drop k t) = s then Some k else lastIndexFrom t s k)"

definition lastIndexOf :: "string \<Rightarrow> string \<Rightarrow> nat option" where
  "lastIndexOf t s =
     (if length s \<le> length t then lastIndexFrom t s (Suc (length t - length s)) else None)"

text \<open>The rest of \<open>s\<close> after the prefix \<open>l\<close>, or \<open>None\<close> when \<open>s\<close> does not start with
  \<open>l\<close>.\<close>

fun stripPrefix :: "string \<Rightarrow> string \<Rightarrow> string option" where
  "stripPrefix [] s = Some s"
| "stripPrefix (a # l) [] = None"
| "stripPrefix (a # l) (b # s) = (if a = b then stripPrefix l s else None)"


text \<open>\<^verbatim>\<open>t.startsWith(s)\<close>.\<close>

definition startsWith :: "string \<Rightarrow> string \<Rightarrow> bool" where
  "startsWith t s \<longleftrightarrow> stripPrefix s t \<noteq> None"

text \<open>\<^verbatim>\<open>t.indexOf(s)\<close>, counted from the start of \<open>t\<close>.\<close>

fun indexOf :: "string \<Rightarrow> string \<Rightarrow> nat option" where
  "indexOf [] s = (if s = [] then Some 0 else None)"
| "indexOf (x # xs) s =
     (case stripPrefix s (x # xs) of
        Some rest \<Rightarrow> Some 0
      | None \<Rightarrow> map_option Suc (indexOf xs s))"

text \<open>\<^verbatim>\<open>t.includes(s)\<close> (\<open>includes\<close> is a keyword of Isabelle).\<close>

definition includesStr :: "string \<Rightarrow> string \<Rightarrow> bool" where
  "includesStr t s \<longleftrightarrow> indexOf t s \<noteq> None"

text \<open>\<^verbatim>\<open>t.endsWith(s)\<close>.\<close>

definition endsWith :: "string \<Rightarrow> string \<Rightarrow> bool" where
  "endsWith t s \<longleftrightarrow> length s \<le> length t \<and> drop (length t - length s) t = s"

text \<open>\<^verbatim>\<open>t.replace(s, '')\<close> with a string pattern: the first occurrence is removed.\<close>

definition removeFirst :: "string \<Rightarrow> string \<Rightarrow> string" where
  "removeFirst t s =
     (case indexOf t s of None \<Rightarrow> t | Some i \<Rightarrow> take i t @ drop (i + length s) t)"

text \<open>\<^verbatim>\<open>toLowerCase()\<close> on one code unit: \<open>A\<close>--\<open>Z\<close> and the Latin-1 capitals
  \<open>0xC0\<close>--\<open>0xDE\<close> (without the multiplication sign \<open>0xD7\<close>) move up by 32.\<close>

definition toLowerChar :: "char \<Rightarrow> char" where
  "toLowerChar c =
     (let n = (of_char c :: nat)
      in if (65 \<le> n \<and> n \<le> 90) \<or> (192 \<le> n \<and> n \<le> 222 \<and> n \<noteq> 215)
         then char_of (n + 32) else c)"

definition toLowerCase :: "string \<Rightarrow> string" where
  "toLowerCase s = map toLowerChar s"

section \<open>Path sanitizer\<close>

text \<open>
  \<^verbatim>\<open>
  const validateAndSanitizePath = (path) => {
    if (!path || typeof path !== 'string') return 'unknown.txt';
    let sanitized = path.replace(/\.\./g, '').replace(/\\/g, '/').trim();
    sanitized = sanitized.replace(/[<>:"|?*]/g, '');
    if (!sanitized.includes('.') && !sanitized.endsWith('/')) {
      sanitized += '.txt';
    }
    return sanitized;
  };
  \<close>
  The argument is \<open>None\<close> for \<^verbatim>\<open>null\<close>, \<^verbatim>\<open>undefined\<close> and every value that is not a
  string.
\<close>

text \<open>\<^verbatim>\<open>replace(/\.\./g, '')\<close>: the matches are found from left to right and do not
  overlap.\<close>

fun removeDotDot :: "string \<Rightarrow> string" where
  "removeDotDot (a # b # xs) =
     (if a = CHR ''.'' \<and> b = CHR ''.'' then removeDotDot xs else a # removeDotDot (b # xs))"
| "removeDotDot xs = xs"

text \<open>\<^verbatim>\<open>replace(/\\/g, '/')\<close>.\<close>

definition backslashToSlash :: "string \<Rightarrow> string" where
  "backslashToSlash s = map (\<lambda>c. if c = CHR 0x5C then CHR ''/'' else c) s"

text \<open>The character class \<^verbatim>\<open>[<>:"|?*]\<close>.\<close>

definition forbiddenChar :: "char \<Rightarrow> bool" where
  "forbiddenChar c \<longleftrightarrow>
     c = CHR ''<'' \<or> c = CHR ''>'' \<or> c = CHR '':'' \<or> c = CHR 0x22 \<or> c = CHR ''|'' \<or>
     c = CHR ''?'' \<or> c = CHR ''*''"

definition validateAndSanitizePath :: "string option \<Rightarrow> string" where
  "validateAndSanitizePath path =
     (case path of
        None \<Rightarrow> ''unknown.txt''
      | Some p \<Rightarrow>
          if p = [] then ''unknown.txt''
          else
            let sanitized = trim (backslashToSlash (removeDotDot p));
                sanitized = filter (\<lambda>c. \<not> forbiddenChar c) sanitized
            in if \<not> includesStr sanitized ''.'' \<and> \<not> endsWith sanitized ''/''
               then sanitized @ ''.txt'' else sanitized)"

section \<open>Artifacts\<close>

text \<open>
  The value of the field \<^verbatim>\<open>language\<close> of a project file: a language name, or one of the
  two objects that \<^verbatim>\<open>languageMap[ext]\<close> finds through the prototype of the table (see
  \<open>getLanguageFromPath\<close> below).
\<close>

datatype languageValue = LanguageName string | ObjectConstructor | ObjectPrototype

text \<open>A project file.  The time stamp of the source's objects is read from the clock and
  is left out.\<close>

record artifact =
  path :: string
  content :: string
  language :: languageValue
  artifact_id :: string
  artifact_type :: string
  createdBy :: string
  source :: string
  lineCount :: nat
  size_chars :: nat
  addedToProject :: bool

text \<open>
  \<^verbatim>\<open>
  const deduplicateArtifacts = (artifacts) => {
    const seen = new Set();
    return artifacts.filter(artifact => {
      const key = artifact.path;
      if (seen.has(key)) { return false; }
      seen.add(key);
      return true;
    });
  };
  \<close>
  The filter callback runs over the list from left to right and threads the set \<open>seen\<close>.
\<close>

fun dedupeFrom :: "string set \<Rightarrow> artifact list \<Rightarrow> artifact list" where
  "dedupeFrom seen [] = []"
| "dedupeFrom seen (a # as) =
     (if path a \<in> seen then dedupeFrom seen as
      else a # dedupeFrom (insert (path a) seen) as)"

definition deduplicateArtifacts :: "artifact list \<Rightarrow> artifact list" where
  "deduplicateArtifacts artifacts = dedupeFrom {} artifacts"

section \<open>Target file of an edit\<close>

text \<open>
  \<^verbatim>\<open>
  const findTargetFileForEdit = useCallback((artifacts, editPath) => {
    if (!artifacts || artifacts.length === 0) return null;
    const limitedArtifacts = artifacts.slice(0, 50);
    const normalizePath = (path) =>
      path.toLowerCase().replace(/\\/g, '/').replace(/^\.?\//, '');
    const normalizedEditPath = normalizePath(editPath);
    for (const art of limitedArtifacts) {
      if (normalizePath(art.path) === normalizedEditPath) return art;
    }
    const editFileName = normalizedEditPath.split('/').pop();
    for (const art of limitedArtifacts) {
      if (normalizePath(art.path).split('/').pop() === editFileName) return art;
    }
    for (const art of limitedArtifacts) {
      if (normalizePath(art.path).includes(normalizedEditPath) ||
          normalizedEditPath.includes(normalizePath(art.path))) {
        return art;
      }
    }
    return null;
  }, []);
  \<close>
\<close>

text \<open>\<^verbatim>\<open>replace(/^\.?\//, '')\<close>: a leading \<^verbatim>\<open>./\<close> or \<^verbatim>\<open>/\<close> is removed.\<close>

fun stripLeadingSlash :: "string \<Rightarrow> string" where
  "stripLeadingSlash (a # b # xs) =
     (if a = CHR ''.'' \<and> b = CHR ''/'' then xs
      else if a = CHR ''/'' then b # xs else a # b # xs)"
| "stripLeadingSlash [a] = (if a = CHR ''/'' then [] else [a])"
| "stripLeadingSlash [] = []"

definition normalizePath :: "string \<Rightarrow> string" where
  "normalizePath p = stripLeadingSlash (backslashToSlash (toLowerCase p))"

text \<open>\<^verbatim>\<open>p.split('/').pop()\<close>.\<close>

definition fileName :: "string \<Rightarrow> string" where
  "fileName p = last (splitOn (CHR ''/'') p)"

text \<open>The tests of the three loops.\<close>

definition exactMatch :: "string \<Rightarrow> artifact \<Rightarrow> bool" where
  "exactMatch normalizedEditPath art \<longleftrightarrow> normalizePath (path art) = normalizedEditPath"

definition fileNameMatch :: "string \<Rightarrow> artifact \<Rightarrow> bool" where
  "fileNameMatch normalizedEditPath art \<longleftrightarrow>
     fileName (normalizePath (path art)) = fileName normalizedEditPath"

definition containsMatch :: "string \<Rightarrow> artifact \<Rightarrow> bool" where
  "containsMatch normalizedEditPath art \<longleftrightarrow>
     includesStr (normalizePath (path art)) normalizedEditPath \<or>
     includesStr normalizedEditPath (normalizePath (path art))"

definition findTargetFileForEdit :: "artifact list option \<Rightarrow> string \<Rightarrow> artifact option" where
  "findTargetFileForEdit artifacts editPath =
     (case artifacts of
        None \<Rightarrow> None
      | Some arts \<Rightarrow>
          if arts = [] then None
          else
            let limitedArtifacts = take 50 arts;
                normalizedEditPath = normalizePath editPath
            in case find (exactMatch normalizedEditPath) limitedArtifacts of
                 Some art \<Rightarrow> Some art
               | None \<Rightarrow>
                   (case find (fileNameMatch normalizedEditPath) limitedArtifacts of
                      Some art \<Rightarrow> Some art
                    | None \<Rightarrow> find (containsMatch normalizedEditPath) limitedArtifacts))"

text \<open>An artifact as the user's "new file" action creates it, for the examples.\<close>

definition fileAt :: "string \<Rightarrow> artifact" where
  "fileAt p =
     \<lparr>path = p, content = [], language = LanguageName ''text'', artifact_id = [],
      artifact_type = ''file'', createdBy = ''user'', source = ''manual'', lineCount = 1,
      size_chars = 0, addedToProject = True\<rparr>"

section \<open>Patch engine\<close>

text \<open>One search/replace pair.  The constant tag \<^verbatim>\<open>type: 'search_replace'\<close> is left
  out.\<close>

record operation =
  search :: string
  replace :: string

text \<open>The entry of \<^verbatim>\<open>failedOps\<close>, with the fields of its \<^verbatim>\<open>debug\<close> object.\<close>

record failureInfo =
  failed_index :: nat
  failed_search :: string
  reason :: string
  searchLength :: nat
  searchLines :: nat
  searchFirst50 :: string
  resultFirst50 :: string

record applyResult =
  result :: "string option"
  appliedCount :: nat
  failedOps :: "failureInfo list"

text \<open>
  \<^verbatim>\<open>
  const normalizeForComparison = (str) => {
    return str.split('\n').map(line => {
      const leadingWhitespace = line.match(/^[\s]*/)[0];
      const content = line.trim();
      return { leadingWhitespace, content, original: line };
    });
  };
  \<close>
\<close>

record normalizedLine =
  leadingWhitespace :: string
  line_content :: string
  original :: string

definition normalizeForComparison :: "string \<Rightarrow> normalizedLine list" where
  "normalizeForComparison str =
     map (\<lambda>line. \<lparr>leadingWhitespace = takeWhile isWhitespace line,
                   line_content = trim line, original = line\<rparr>)
       (splitOn (CHR 0x0A) str)"

text \<open>
  The inner loop of the fuzzy search, on the search lines and the lines of the result
  from \<^verbatim>\<open>startIdx\<close> on; it returns \<^verbatim>\<open>matchFound\<close> and \<^verbatim>\<open>potentialMatch\<close>.
  \<^verbatim>\<open>
  for (let j = 0; j < searchLines.length && startIdx + j < resultLines.length; j++) {
    const resultLine = resultLines[startIdx + j];
    const searchLine = searchLines[j];
    const resultContent = resultLine.trim();
    if (resultContent !== searchLine.content) { matchFound = false; break; }
    potentialMatch.push(resultLines[startIdx + j]);
  }
  \<close>
\<close>

fun compareLines :: "normalizedLine list \<Rightarrow> string list \<Rightarrow> bool \<times> string list" where
  "compareLines (searchLine # sls) (resultLine # rls) =
     (if trim resultLine \<noteq> line_content searchLine then (False, [])
      else (case compareLines sls rls of (matchFound, potentialMatch) \<Rightarrow>
              (matchFound, resultLine # potentialMatch)))"
| "compareLines sls rls = (True, [])"

text \<open>
  The outer loop: \<^verbatim>\<open>startIdx\<close> runs from \<open>n - 1\<close> down to \<open>0\<close>, and the first start
  index that passes \<^verbatim>\<open>matchFound && potentialMatch.length === searchLines.length\<close> is
  returned.
\<close>

fun fuzzyScan :: "normalizedLine list \<Rightarrow> string list \<Rightarrow> nat \<Rightarrow> nat option" where
  "fuzzyScan searchLs resultLines 0 = None"
| "fuzzyScan searchLs resultLines (Suc startIdx) =
     (case compareLines searchLs (drop startIdx resultLines) of
        (matchFound, potentialMatch) \<Rightarrow>
          if matchFound \<and> length potentialMatch = length searchLs then Some startIdx
          else fuzzyScan searchLs resultLines startIdx)"

text \<open>
  The replacement of a fuzzy match.
  \<^verbatim>\<open>
  const beforeMatch = resultLines.slice(0, startIdx).join('\n');
  const afterMatch = resultLines.slice(startIdx + searchLines.length).join('\n');
  result = beforeMatch + (beforeMatch ? '\n' : '') + replace +
           (afterMatch ? '\n' : '') + afterMatch;
  \<close>
\<close>

definition fuzzyReplace :: "string list \<Rightarrow> nat \<Rightarrow> nat \<Rightarrow> string \<Rightarrow> string" where
  "fuzzyReplace resultLines startIdx n repl =
     (let beforeMatch = joinWith [CHR 0x0A] (take startIdx resultLines);
          afterMatch = joinWith [CHR 0x0A] (drop (startIdx + n) resultLines)
      in beforeMatch @ (if beforeMatch \<noteq> [] then [CHR 0x0A] else []) @ repl @
         (if afterMatch \<noteq> [] then [CHR 0x0A] else []) @ afterMatch)"

text \<open>\<^verbatim>\<open>s.replace(/\n/g, '\\n')\<close>: every line feed becomes a backslash and an \<open>n\<close>.\<close>

definition escapeNewlines :: "string \<Rightarrow> string" where
  "escapeNewlines s = concat (map (\<lambda>c. if c = CHR 0x0A then [CHR 0x5C, CHR ''n''] else [c]) s)"

definition failureOf :: "nat \<Rightarrow> string \<Rightarrow> string \<Rightarrow> failureInfo" where
  "failureOf originalIndex srch res =
     \<lparr>failed_index = originalIndex + 1,
      failed_search = take 100 srch @ (if length srch > 100 then ''...'' else []),
      reason = ''No exact or fuzzy match found. Check whitespace and indentation.'',
      searchLength = length srch,
      searchLines = length (splitOn (CHR 0x0A) srch),
      searchFirst50 = escapeNewlines (take 50 srch),
      resultFirst50 = escapeNewlines (take 50 res)\<rparr>"

text \<open>
  The body of the loop over the operations: the state is \<^verbatim>\<open>result\<close>,
  \<^verbatim>\<open>appliedCount\<close> and \<^verbatim>\<open>failedOps\<close>; the operation comes with its
  \<^verbatim>\<open>originalIndex\<close>.
  \<^verbatim>\<open>
  let lastIndex = result.lastIndexOf(search);
  if (lastIndex === -1) {
    const searchLines = normalizeForComparison(search);
    const resultLines = result.split('\n');
    for (let startIdx = resultLines.length - 1; startIdx >= 0; startIdx--) {
      ...
      if (matchFound && potentialMatch.length === searchLines.length) {
        ...
        appliedCount++;
        lastIndex = 0; // Mark as found
        break;
      }
    }
  } else {
    result = result.substring(0, lastIndex) + replace +
             result.substring(lastIndex + search.length);
    appliedCount++;
  }
  if (lastIndex === -1) { failedOps.push({ ... }); }
  \<close>
\<close>

definition applyOperation ::
  "string \<times> nat \<times> failureInfo list \<Rightarrow> operation \<times> nat \<Rightarrow> string \<times> nat \<times> failureInfo list"
where
  "applyOperation st opi =
     (case st of (res, applied, failed) \<Rightarrow>
      case opi of (op, originalIndex) \<Rightarrow>
        (case lastIndexOf res (search op) of
           Some lastIndex \<Rightarrow>
             (take lastIndex res @ replace op @ drop (lastIndex + length (search op)) res,
              applied + 1, failed)
         | None \<Rightarrow>
             (let searchLs = normalizeForComparison (search op);
                  resultLines = splitOn (CHR 0x0A) res
              in case fuzzyScan searchLs resultLines (length resultLines) of
                   Some startIdx \<Rightarrow>
                     (fuzzyReplace resultLines startIdx (length searchLs) (replace op),
                      applied + 1, failed)
                 | None \<Rightarrow>
                     (res, applied, failed @ [failureOf originalIndex (search op) res]))))"

text \<open>
  \<^verbatim>\<open>
  const applySearchReplace = useCallback((originalContent, operations) => {
    if (!originalContent || !operations || operations.length === 0) {
      return { result: originalContent, appliedCount: 0, failedOps: [] };
    }
    let result = originalContent;
    let appliedCount = 0;
    let failedOps = [];
    const limitedOperations = operations.slice(0, 20);
    ...
    const sortedOperations = [...limitedOperations].map((op, index) => ({
      ...op, originalIndex: index
    }));
    for (let i = sortedOperations.length - 1; i >= 0; i--) { ... }
    return { result, appliedCount, failedOps };
  }, []);
  \<close>
  \<open>None\<close> is a missing argument (\<^verbatim>\<open>null\<close> or \<^verbatim>\<open>undefined\<close>); the empty string is falsy
  as well.
\<close>

definition applySearchReplace :: "string option \<Rightarrow> operation list option \<Rightarrow> applyResult" where
  "applySearchReplace originalContent operations =
     (case originalContent of
        None \<Rightarrow> \<lparr>result = originalContent, appliedCount = 0, failedOps = []\<rparr>
      | Some oc \<Rightarrow>
          (case operations of
             None \<Rightarrow> \<lparr>result = originalContent, appliedCount = 0, failedOps = []\<rparr>
           | Some ops \<Rightarrow>
               if oc = [] \<or> ops = []
               then \<lparr>result = originalContent, appliedCount = 0, failedOps = []\<rparr>
               else
                 let limitedOperations = take 20 ops;
                     sortedOperations = zip limitedOperations [0..<length limitedOperations]
                 in case foldl applyOperation (oc, 0, []) (rev sortedOperations) of
                      (res, applied, failed) \<Rightarrow>
                        \<lparr>result = Some res, appliedCount = applied, failedOps = failed\<rparr>))"

subsection \<open>The patch engine of the older snapshot\<close>

text \<open>
  The older snapshot of the source (\<^verbatim>\<open>unnamed/part_000\<close>) has \<^verbatim>\<open>applySearchReplace\<close> without the fuzzy fallback; the
  entries of its \<^verbatim>\<open>failedOps\<close> have another \<^verbatim>\<open>debug\<close> object.
  \<^verbatim>\<open>
  for (let i = sortedOperations.length - 1; i >= 0; i--) {
    const op = sortedOperations[i];
    const { search, replace } = op;
    const lastIndex = result.lastIndexOf(search);
    if (lastIndex !== -1) {
      result = result.substring(0, lastIndex) + replace +
               result.substring(lastIndex + search.length);
      appliedCount++;
    } else {
      failedOps.push({
        index: op.originalIndex + 1,
        search: search.substring(0, 100) + (search.length > 100 ? '...' : ''),
        reason: 'No exact match found.',
        debug: { searchLength: search.length,
                 originalFirst50: originalContent.substring(0, 50),
                 resultFirst50: result.substring(0, 50) }
      });
    }
  }
  \<close>
\<close>

record exactFailureInfo =
  exact_failed_index :: nat
  exact_failed_search :: string
  exact_reason :: string
  exact_searchLength :: nat
  exact_originalFirst50 :: string
  exact_resultFirst50 :: string

record exactApplyResult =
  exact_result :: "string option"
  exact_appliedCount :: nat
  exact_failedOps :: "exactFailureInfo list"

definition applyOperationExact ::
  "string \<Rightarrow> string \<times> nat \<times> exactFailureInfo list \<Rightarrow> operation \<times> nat \<Rightarrow>
   string \<times> nat \<times> exactFailureInfo list"
where
  "applyOperationExact originalContent st opi =
     (case st of (res, applied, failed) \<Rightarrow>
      case opi of (op, originalIndex) \<Rightarrow>
        (case lastIndexOf res (search op) of
           Some lastIndex \<Rightarrow>
             (take lastIndex res @ replace op @ drop (lastIndex + length (search op)) res,
              applied + 1, failed)
         | None \<Rightarrow>
             (res, applied,
              failed @
              [\<lparr>exact_failed_index = originalIndex + 1,
                exact_failed_search =
                  take 100 (search op) @ (if length (search op) > 100 then ''...'' else []),
                exact_reason = ''No exact match found.'',
                exact_searchLength = length (search op),
                exact_originalFirst50 = take 50 originalContent,
                exact_resultFirst50 = take 50 res\<rparr>])))"

definition applySearchReplaceExact ::
  "string option \<Rightarrow> operation list option \<Rightarrow> exactApplyResult"
where
  "applySearchReplaceExact originalContent operations =
     (case originalContent of
        None \<Rightarrow> \<lparr>exact_result = originalContent, exact_appliedCount = 0, exact_failedOps = []\<rparr>
      | Some oc \<Rightarrow>
          (case operations of
             None \<Rightarrow>
               \<lparr>exact_result = originalContent, exact_appliedCount = 0, exact_failedOps = []\<rparr>
           | Some ops \<Rightarrow>
               if oc = [] \<or> ops = []
               then \<lparr>exact_result = originalContent, exact_appliedCount = 0,
                      exact_failedOps = []\<rparr>
               else
                 let limitedOperations = take 20 ops;
                     sortedOperations = zip limitedOperations [0..<length limitedOperations]
                 in case foldl (applyOperationExact oc) (oc, 0, []) (rev sortedOperations) of
                      (res, applied, failed) \<Rightarrow>
                        \<lparr>exact_result = Some res, exact_appliedCount = applied,
                         exact_failedOps = failed\<rparr>))"

section \<open>Regular expressions\<close>

text \<open>
  The regular expressions of the parser are matched by backtracking, as the JavaScript
  engine does: a quantifier tries its alternatives in the order of the language definition
  (greedy: longest first; lazy: shortest first) and the first alternative for which the
  rest of the pattern matches is taken.  The rest of the pattern is the continuation \<open>k\<close>.
  Only the constructs of the source's patterns are modelled: quantifiers apply to
  character classes, and there are no anchors.

  \<open>Chars p\<close> is one character of the class \<open>p\<close>; \<open>Str l\<close> is the literal text \<open>l\<close> and
  \<open>StrI l\<close> the literal text \<open>l\<close> under the \<^verbatim>\<open>i\<close> flag (a literal without letters is
  the same under the flag); \<open>Star p\<close> and \<open>StarLazy p\<close> are \<^verbatim>\<open>p*\<close> and \<^verbatim>\<open>p*?\<close>;
  \<open>Opt r\<close> is \<^verbatim>\<open>r?\<close>; \<open>Alt a b\<close> is \<^verbatim>\<open>a|b\<close>; \<open>Seq a b\<close> is \<open>a\<close> followed by \<open>b\<close>;
  \<open>Group i r\<close> is the \<open>i\<close>-th capturing group.
\<close>

datatype regex =
    Chars "char \<Rightarrow> bool"
  | Str string
  | StrI string
  | Star "char \<Rightarrow> bool"
  | StarLazy "char \<Rightarrow> bool"
  | Opt regex
  | Alt regex regex
  | Seq regex regex
  | Group nat regex

type_synonym captures = "nat \<Rightarrow> string option"

text \<open>Two code units are equal under the \<^verbatim>\<open>i\<close> flag.\<close>

definition eqIgnoreCase :: "char \<Rightarrow> char \<Rightarrow> bool" where
  "eqIgnoreCase a b \<longleftrightarrow> (if a = b then True else toLowerChar a = toLowerChar b)"

fun stripPrefixI :: "string \<Rightarrow> string \<Rightarrow> string option" where
  "stripPrefixI [] s = Some s"
| "stripPrefixI (a # l) [] = None"
| "stripPrefixI (a # l) (b # s) = (if eqIgnoreCase a b then stripPrefixI l s else None)"

fun starGreedy ::
  "(char \<Rightarrow> bool) \<Rightarrow> string \<Rightarrow> captures \<Rightarrow> (string \<Rightarrow> captures \<Rightarrow> 'a option) \<Rightarrow> 'a option" where
  "starGreedy p [] c k = k [] c"
| "starGreedy p (x # xs) c k =
     (if p x then (case starGreedy p xs c k of Some v \<Rightarrow> Some v | None \<Rightarrow> k (x # xs) c)
      else k (x # xs) c)"

fun starLazy ::
  "(char \<Rightarrow> bool) \<Rightarrow> string \<Rightarrow> captures \<Rightarrow> (string \<Rightarrow> captures \<Rightarrow> 'a option) \<Rightarrow> 'a option" where
  "starLazy p [] c k = k [] c"
| "starLazy p (x # xs) c k =
     (case k (x # xs) c of Some v \<Rightarrow> Some v
      | None \<Rightarrow> if p x then starLazy p xs c k else None)"

fun matchRe ::
  "regex \<Rightarrow> string \<Rightarrow> captures \<Rightarrow> (string \<Rightarrow> captures \<Rightarrow> 'a option) \<Rightarrow> 'a option" where
  "matchRe (Chars p) s c k = (case s of [] \<Rightarrow> None | x # xs \<Rightarrow> if p x then k xs c else None)"
| "matchRe (Str l) s c k = (case stripPrefix l s of None \<Rightarrow> None | Some s' \<Rightarrow> k s' c)"
| "matchRe (StrI l) s c k = (case stripPrefixI l s of None \<Rightarrow> None | Some s' \<Rightarrow> k s' c)"
| "matchRe (Star p) s c k = starGreedy p s c k"
| "matchRe (StarLazy p) s c k = starLazy p s c k"
| "matchRe (Opt r) s c k = (case matchRe r s c k of Some v \<Rightarrow> Some v | None \<Rightarrow> k s c)"
| "matchRe (Alt a b) s c k =
     (case matchRe a s c k of Some v \<Rightarrow> Some v | None \<Rightarrow> matchRe b s c k)"
| "matchRe (Seq a b) s c k = matchRe a s c (\<lambda>s' c'. matchRe b s' c' k)"
| "matchRe (Group i r) s c k =
     matchRe r s c (\<lambda>s' c'. k s' (c'(i \<mapsto> take (length s - length s') s)))"

text \<open>The match object: \<^verbatim>\<open>match.index\<close>, \<^verbatim>\<open>match[0]\<close> and the groups
  \<^verbatim>\<open>match[1]\<close>, \<^verbatim>\<open>match[2]\<close>, ... (\<open>None\<close> for \<^verbatim>\<open>undefined\<close>).\<close>

record regexMatch =
  match_index :: nat
  matched :: string
  groups :: captures

text \<open>The leftmost match in \<open>s\<close>, whose first character has index \<open>pos\<close>.\<close>

fun searchRe :: "regex \<Rightarrow> string \<Rightarrow> nat \<Rightarrow> regexMatch option" where
  "searchRe r [] pos =
     (case matchRe r [] (\<lambda>_. None) (\<lambda>s' c. Some (s', c)) of
        None \<Rightarrow> None
      | Some (s', c) \<Rightarrow> Some \<lparr>match_index = pos, matched = [], groups = c\<rparr>)"
| "searchRe r (x # xs) pos =
     (case matchRe r (x # xs) (\<lambda>_. None) (\<lambda>s' c. Some (s', c)) of
        Some (s', c) \<Rightarrow>
          Some \<lparr>match_index = pos, matched = take (length (x # xs) - length s') (x # xs),
                groups = c\<rparr>
      | None \<Rightarrow> searchRe r xs (Suc pos))"

text \<open>\<^verbatim>\<open>regex.exec(s)\<close> of a global pattern whose \<^verbatim>\<open>lastIndex\<close> is given; the new
  \<^verbatim>\<open>lastIndex\<close> is the end of the match.  \<^verbatim>\<open>s.match(regex)\<close> of a pattern that is not
  global is \<open>exec regex s 0\<close>.\<close>

definition exec :: "regex \<Rightarrow> string \<Rightarrow> nat \<Rightarrow> regexMatch option" where
  "exec r s lastIndex =
     (if lastIndex > length s then None else searchRe r (drop lastIndex s) lastIndex)"

definition matchEnd :: "regexMatch \<Rightarrow> nat" where
  "matchEnd m = match_index m + length (matched m)"

text \<open>A group that took part in the match; the empty string stands for an unset one.\<close>

definition groupText :: "regexMatch \<Rightarrow> nat \<Rightarrow> string" where
  "groupText m i = (case groups m i of None \<Rightarrow> [] | Some s \<Rightarrow> s)"

fun seqs :: "regex list \<Rightarrow> regex" where
  "seqs [] = Str []"
| "seqs [r] = r"
| "seqs (r # rs) = Seq r (seqs rs)"

fun alts :: "regex list \<Rightarrow> regex" where
  "alts [] = Str []"
| "alts [r] = r"
| "alts (r # rs) = Alt r (alts rs)"

definition oneOrMore :: "(char \<Rightarrow> bool) \<Rightarrow> regex" where
  "oneOrMore p = Seq (Chars p) (Star p)"

definition oneOrMoreLazy :: "(char \<Rightarrow> bool) \<Rightarrow> regex" where
  "oneOrMoreLazy p = Seq (Chars p) (StarLazy p)"

text \<open>The character classes \<^verbatim>\<open>[\s\S]\<close>, \<^verbatim>\<open>\w\<close>, \<^verbatim>\<open>\d\<close>, \<^verbatim>\<open>.\<close> and \<^verbatim>\<open>[^\r\n]\<close>,
  \<^verbatim>\<open>[^\n]\<close>, \<^verbatim>\<open>[^\s]\<close>, \<^verbatim>\<open>[a-zA-Z0-9_\-\/\.]\<close>.\<close>

definition anyChar :: "char \<Rightarrow> bool" where
  "anyChar c = True"

definition isDigit :: "char \<Rightarrow> bool" where
  "isDigit c \<longleftrightarrow> (let n = (of_char c :: nat) in 48 \<le> n \<and> n \<le> 57)"

definition isWordChar :: "char \<Rightarrow> bool" where
  "isWordChar c \<longleftrightarrow>
     (let n = (of_char c :: nat)
      in (48 \<le> n \<and> n \<le> 57) \<or> (65 \<le> n \<and> n \<le> 90) \<or> n = 95 \<or> (97 \<le> n \<and> n \<le> 122))"

definition notLineBreak :: "char \<Rightarrow> bool" where
  "notLineBreak c \<longleftrightarrow> c \<noteq> CHR 0x0A \<and> c \<noteq> CHR 0x0D"

definition notNewline :: "char \<Rightarrow> bool" where
  "notNewline c \<longleftrightarrow> c \<noteq> CHR 0x0A"

definition notSpace :: "char \<Rightarrow> bool" where
  "notSpace c \<longleftrightarrow> \<not> isWhitespace c"

definition fileNameChar :: "char \<Rightarrow> bool" where
  "fileNameChar c \<longleftrightarrow> isWordChar c \<or> c = CHR ''-'' \<or> c = CHR ''/'' \<or> c = CHR ''.''"

section \<open>Response parser\<close>

text \<open>The exception object of a \<^verbatim>\<open>throw\<close>, with its message.\<close>

datatype jsError = Thrown string

text \<open>
  \<^verbatim>\<open>
  const generateSafeId = (base = '') => {
    const timestamp = Date.now();
    const random = Math.random().toString(36).substr(2, 12);
    const performanceMark = performance.now().toString(36).replace('.', '');
    return `${base}-${timestamp}-${performanceMark}-${random}`;
  };
  \<close>
  The clock, the performance counter and the random number generator belong to the
  environment: \<open>idSource n\<close> is what they give at the \<open>n\<close>-th call of one parse, either
  the text \<^verbatim>\<open>${timestamp}-${performanceMark}-${random}\<close> or the exception of a call that
  fails (a reference to \<^verbatim>\<open>performance\<close> where the host does not define it).
\<close>

type_synonym idSource = "nat \<Rightarrow> jsError + string"

definition generateSafeId :: "idSource \<Rightarrow> nat \<Rightarrow> string \<Rightarrow> jsError + string" where
  "generateSafeId ids n base =
     (case ids n of Inl e \<Rightarrow> Inl e | Inr suffix \<Rightarrow> Inr (base @ ''-'' @ suffix))"

text \<open>
  \<^verbatim>\<open>
  const getLanguageFromPath = (path) => {
    const safePath = validateAndSanitizePath(path);
    const ext = safePath.split('.').pop()?.toLowerCase();
    const languageMap = { 'js': 'javascript', ... };
    return languageMap[ext] || 'text';
  };
  \<close>
  \<^verbatim>\<open>languageMap[ext]\<close> also finds the properties that the table inherits from
  \<^verbatim>\<open>Object.prototype\<close>.  The extension is in lower case, so among their names only
  \<^verbatim>\<open>constructor\<close> and \<^verbatim>\<open>__proto__\<close> can be hit; both values are objects, hence truthy,
  and are returned as they are.
\<close>

definition languageMap :: "(string \<times> string) list" where
  "languageMap =
     [(''js'', ''javascript''), (''jsx'', ''jsx''), (''ts'', ''typescript''), (''tsx'', ''tsx''),
      (''css'', ''css''), (''html'', ''html''), (''json'', ''json''), (''md'', ''markdown''),
      (''py'', ''python''), (''java'', ''java''), (''cpp'', ''cpp''), (''c'', ''c''),
      (''php'', ''php''), (''rb'', ''ruby''), (''go'', ''go''), (''rs'', ''rust''),
      (''txt'', ''text''), (''xml'', ''xml''), (''yaml'', ''yaml''), (''yml'', ''yaml''),
      (''sh'', ''bash''), (''bash'', ''bash''), (''sql'', ''sql''), (''vue'', ''vue''),
      (''svelte'', ''svelte''), (''swift'', ''swift''), (''kt'', ''kotlin''),
      (''scala'', ''scala''), (''r'', ''r''), (''pl'', ''perl''), (''lua'', ''lua'')]"

definition getLanguageFromPath :: "string \<Rightarrow> languageValue" where
  "getLanguageFromPath p =
     (let safePath = validateAndSanitizePath (Some p);
          ext = toLowerCase (last (splitOn (CHR ''.'') safePath))
      in case map_of languageMap ext of
           Some l \<Rightarrow> LanguageName l
         | None \<Rightarrow>
             if ext = ''constructor'' then ObjectConstructor
             else if ext = ''__proto__'' then ObjectPrototype
             else LanguageName ''text'')"

subsection \<open>Search/replace operations of an edit block\<close>

text \<open>
  \<^verbatim>\<open>/<<<<<<< SEARCH\s*\n([\s\S]*?)\n=======\s*\n([\s\S]*?)\n>>>>>>> REPLACE/g\<close>
\<close>

definition searchReplaceRegex :: regex where
  "searchReplaceRegex =
     seqs [Str ''<<<<<<< SEARCH'', Star isWhitespace, Str ''\<newline>'',
           Group 1 (StarLazy anyChar), Str ''\<newline>======='', Star isWhitespace,
           Str ''\<newline>'', Group 2 (StarLazy anyChar), Str ''\<newline>>>>>>>> REPLACE'']"

text \<open>
  \<^verbatim>\<open>
  while ((match = searchReplaceRegex.exec(content)) !== null && count < 10) {
    operations.push({ search: match[1], replace: match[2], type: 'search_replace' });
    count++;
  }
  \<close>
  The state of the loop is \<^verbatim>\<open>lastIndex\<close> of the pattern and the list \<^verbatim>\<open>operations\<close>,
  whose length is \<^verbatim>\<open>count\<close>; \<open>str\<close> is \<^verbatim>\<open>content\<close> and \<open>ops\<close> is \<^verbatim>\<open>operations\<close>.
\<close>

function searchReplaceLoop :: "string \<Rightarrow> nat \<Rightarrow> operation list \<Rightarrow> operation list" where
  "searchReplaceLoop str lastIndex ops =
     (case exec searchReplaceRegex str lastIndex of
        None \<Rightarrow> ops
      | Some m \<Rightarrow>
          if length ops < 10
          then searchReplaceLoop str (matchEnd m)
                 (ops @ [\<lparr>search = groupText m 1, replace = groupText m 2\<rparr>])
          else ops)"
  by pat_completeness auto
termination
  by (relation "measure (\<lambda>(str, lastIndex, ops). 10 - length ops)") auto

declare searchReplaceLoop.simps [simp del]

text \<open>
  \<^verbatim>\<open>
  const parseSearchReplace = useCallback((content) => {
    if (!content || typeof content !== 'string' || content.length < 20) { return []; }
    ...
    return operations;
  }, []);
  \<close>
\<close>

definition parseSearchReplace :: "string \<Rightarrow> operation list" where
  "parseSearchReplace str =
     (if length str < 20 then [] else searchReplaceLoop str 0 [])"

subsection \<open>Edit blocks\<close>

text \<open>One pending edit, with the fields \<^verbatim>\<open>path\<close>, \<^verbatim>\<open>operations\<close>, \<^verbatim>\<open>id\<close>,
  \<^verbatim>\<open>type\<close>, \<^verbatim>\<open>rawContent\<close>, \<^verbatim>\<open>parsedContent\<close>, \<^verbatim>\<open>applied\<close> and
  \<^verbatim>\<open>operationCount\<close>.  The time stamp is left out.\<close>

record editGroup =
  edit_path :: string
  edit_operations :: "operation list"
  edit_id :: string
  edit_type :: string
  rawContent :: string
  parsedContent :: string
  edit_applied :: bool
  operationCount :: nat

record editBlock =
  fullMatch :: string
  block_content :: string
  block_index :: nat

text \<open>\<^verbatim>\<open>/```(?:edit)?\s*\r?\n([\s\S]*?)\r?\n```/gi\<close>\<close>

definition editBlockRegex :: regex where
  "editBlockRegex =
     seqs [Str ''```'', Opt (StrI ''edit''), Star isWhitespace, Opt (Str [CHR 0x0D]),
           Str ''\<newline>'', Group 1 (StarLazy anyChar), Opt (Str [CHR 0x0D]),
           Str ''\<newline>```'']"

text \<open>
  \<^verbatim>\<open>
  while ((editMatch = editBlockRegex.exec(limitedMessage)) !== null && editBlocks.length < 5) {
    editBlocks.push({ fullMatch: editMatch[0], content: editMatch[1], index: editMatch.index });
  }
  \<close>
\<close>

function editBlockLoop :: "string \<Rightarrow> nat \<Rightarrow> editBlock list \<Rightarrow> editBlock list" where
  "editBlockLoop limitedMessage lastIndex editBlocks =
     (case exec editBlockRegex limitedMessage lastIndex of
        None \<Rightarrow> editBlocks
      | Some m \<Rightarrow>
          if length editBlocks < 5
          then editBlockLoop limitedMessage (matchEnd m)
                 (editBlocks @ [\<lparr>fullMatch = matched m, block_content = groupText m 1,
                                 block_index = match_index m\<rparr>])
          else editBlocks)"
  by pat_completeness auto
termination
  by (relation "measure (\<lambda>(limitedMessage, lastIndex, editBlocks). 5 - length editBlocks)") auto

declare editBlockLoop.simps [simp del]

text \<open>\<^verbatim>\<open>/(?:@@@|\/\/\/|#|File:|file:|filename:)\s*(.+)/i\<close>\<close>

definition fileMarkerRegex :: regex where
  "fileMarkerRegex =
     seqs [alts [Str ''@@@'', Str ''///'', Str ''#'', StrI ''File:'', StrI ''file:'',
                 StrI ''filename:''],
           Star isWhitespace, Group 1 (oneOrMore notLineBreak)]"

text \<open>
  The search for the marker in the first lines of a block without a marker match:
  \<^verbatim>\<open>
  const lines = block.content.split('\n');
  for (let i = 0; i < Math.min(3, lines.length); i++) {
    const lineMatch = lines[i].match(/(?:@@@|\/\/\/|#|File:|file:|filename:)\s*(.+)/i);
    if (lineMatch) {
      targetFile = validateAndSanitizePath(lineMatch[1].trim());
      editContent = lines.slice(i + 1).join('\n').trim();
      break;
    }
  }
  \<close>
  \<open>firstLines\<close> are the lines not yet visited, among the first three; \<open>rest\<close> are the
  lines after the visited one.
\<close>

fun markerInLines :: "string list \<Rightarrow> string list \<Rightarrow> (string \<times> string) option" where
  "markerInLines [] rest = None"
| "markerInLines (line # firstLines) rest =
     (case exec fileMarkerRegex line 0 of
        Some lineMatch \<Rightarrow>
          Some (validateAndSanitizePath (Some (trim (groupText lineMatch 1))),
                trim (joinWith ''\<newline>'' (tl rest)))
      | None \<Rightarrow> markerInLines firstLines (tl rest))"

text \<open>\<^verbatim>\<open>targetFile\<close> (\<open>None\<close> for \<^verbatim>\<open>null\<close>) and \<^verbatim>\<open>editContent\<close> of a block.\<close>

definition locateFileMarker :: "string \<Rightarrow> string option \<times> string" where
  "locateFileMarker blockContent =
     (case exec fileMarkerRegex blockContent 0 of
        Some fileMarkerMatch \<Rightarrow>
          (Some (validateAndSanitizePath (Some (trim (groupText fileMarkerMatch 1)))),
           trim (removeFirst blockContent (matched fileMarkerMatch)))
      | None \<Rightarrow>
          (let lines = splitOn (CHR 0x0A) blockContent
           in case markerInLines (take 3 lines) lines of
                Some (targetFile, editContent) \<Rightarrow> (Some targetFile, editContent)
              | None \<Rightarrow> (None, blockContent)))"

text \<open>\<^verbatim>\<open>editsByFile\<close> is a \<^verbatim>\<open>Map\<close> from paths to edit groups; its values are listed in
  the order in which the keys were first set.  It is the list of its values here, each
  value carrying its key as \<open>edit_path\<close>.\<close>

definition hasEdit :: "editGroup list \<Rightarrow> string \<Rightarrow> bool" where
  "hasEdit editsByFile p \<longleftrightarrow> find (\<lambda>g. edit_path g = p) editsByFile \<noteq> None"

text \<open>
  \<^verbatim>\<open>
  const existingEdit = editsByFile.get(finalPath);
  existingEdit.operations.push(...operations);
  existingEdit.operationCount += operations.length;
  \<close>
\<close>

fun appendOperations :: "string \<Rightarrow> operation list \<Rightarrow> editGroup list \<Rightarrow> editGroup list" where
  "appendOperations p ops [] = []"
| "appendOperations p ops (g # gs) =
     (if edit_path g = p
      then g\<lparr>edit_operations := edit_operations g @ ops,
             operationCount := operationCount g + length ops\<rparr> # gs
      else g # appendOperations p ops gs)"

text \<open>
  The body of \<^verbatim>\<open>for (const block of editBlocks)\<close>; the state is \<^verbatim>\<open>regularContent\<close>
  and \<^verbatim>\<open>editsByFile\<close>.
  \<^verbatim>\<open>
  const operations = parseSearchReplace(editContent);
  if (operations.length > 0) {
    regularContent = regularContent.replace(block.fullMatch, '');
    const finalPath = targetFile || 'unknown';
    if (editsByFile.has(finalPath)) {
      ...
    } else {
      const editGroup = {
        path: finalPath, operations: operations, id: generateSafeId(`edit-${finalPath}`),
        type: 'search_replace', timestamp: new Date().toISOString(),
        rawContent: block.fullMatch, parsedContent: editContent, applied: false,
        operationCount: operations.length
      };
      editsByFile.set(finalPath, editGroup);
    }
  }
  \<close>
\<close>

definition processEditBlock ::
  "idSource \<Rightarrow> string \<times> editGroup list \<Rightarrow> editBlock \<Rightarrow> jsError + string \<times> editGroup list"
where
  "processEditBlock ids st block =
     (case st of (regularContent, editsByFile) \<Rightarrow>
      case locateFileMarker (block_content block) of (targetFile, editContent) \<Rightarrow>
        (let ops = parseSearchReplace editContent
         in if length ops > 0
            then
              (let regularContent' = removeFirst regularContent (fullMatch block);
                   finalPath = (case targetFile of None \<Rightarrow> ''unknown''
                                | Some t \<Rightarrow> if t = [] then ''unknown'' else t)
               in if hasEdit editsByFile finalPath
                  then Inr (regularContent', appendOperations finalPath ops editsByFile)
                  else
                    (case generateSafeId ids (length editsByFile) (''edit-'' @ finalPath) of
                       Inl e \<Rightarrow> Inl e
                     | Inr newId \<Rightarrow>
                         Inr (regularContent',
                              editsByFile @
                              [\<lparr>edit_path = finalPath, edit_operations = ops, edit_id = newId,
                                edit_type = ''search_replace'', rawContent = fullMatch block,
                                parsedContent = editContent, edit_applied = False,
                                operationCount = length ops\<rparr>])))
            else Inr (regularContent, editsByFile)))"

fun processEditBlocks ::
  "idSource \<Rightarrow> string \<times> editGroup list \<Rightarrow> editBlock list \<Rightarrow> jsError + string \<times> editGroup list"
where
  "processEditBlocks ids st [] = Inr st"
| "processEditBlocks ids st (block # blocks) =
     (case processEditBlock ids st block of
        Inl e \<Rightarrow> Inl e
      | Inr st' \<Rightarrow> processEditBlocks ids st' blocks)"

subsection \<open>File-creation blocks\<close>

text \<open>
  \<^verbatim>\<open>
  const filePatterns = [
    /```(\w+)?\s*\r?\n\s*(?:\/\/|#)\s*(?:filename|file):\s*([^\r\n]+)\r?\n([\s\S]*?)```/gi,
    /```(\w+)?\s*\r?\n\s*\/\*\s*(?:filename|file):\s*([^\r\n]+?)\s*\*\/\r?\n([\s\S]*?)```/gi,
    /```(\w+)?\s*\r?\n\s*([a-zA-Z0-9_\-\/\.]+\.\w+)\r?\n([\s\S]*?)```/gi,
  ];
  \<close>
\<close>

definition filePatterns :: "regex list" where
  "filePatterns =
     [seqs [Str ''```'', Opt (Group 1 (oneOrMore isWordChar)), Star isWhitespace,
            Opt (Str [CHR 0x0D]), Str ''\<newline>'', Star isWhitespace,
            Alt (Str ''//'') (Str ''#''), Star isWhitespace,
            Alt (StrI ''filename'') (StrI ''file''), Str '':'', Star isWhitespace,
            Group 2 (oneOrMore notLineBreak), Opt (Str [CHR 0x0D]), Str ''\<newline>'',
            Group 3 (StarLazy anyChar), Str ''```''],
      seqs [Str ''```'', Opt (Group 1 (oneOrMore isWordChar)), Star isWhitespace,
            Opt (Str [CHR 0x0D]), Str ''\<newline>'', Star isWhitespace, Str ''/*'',
            Star isWhitespace, Alt (StrI ''filename'') (StrI ''file''), Str '':'',
            Star isWhitespace, Group 2 (oneOrMoreLazy notLineBreak), Star isWhitespace,
            Str ''*/'', Opt (Str [CHR 0x0D]), Str ''\<newline>'', Group 3 (StarLazy anyChar),
            Str ''```''],
      seqs [Str ''```'', Opt (Group 1 (oneOrMore isWordChar)), Star isWhitespace,
            Opt (Str [CHR 0x0D]), Str ''\<newline>'', Star isWhitespace,
            Group 2 (seqs [oneOrMore fileNameChar, Str ''.'', oneOrMore isWordChar]),
            Opt (Str [CHR 0x0D]), Str ''\<newline>'', Group 3 (StarLazy anyChar),
            Str ''```'']]"

text \<open>\<^verbatim>\<open>match[i] || 'text'\<close>.\<close>

definition languageOf :: "regexMatch \<Rightarrow> nat \<Rightarrow> string" where
  "languageOf m i =
     (case groups m i of None \<Rightarrow> ''text'' | Some l \<Rightarrow> if l = [] then ''text'' else l)"

text \<open>\<^verbatim>\<open>content.includes('<<<<<<< SEARCH') || content.includes('=======') ||
  content.includes('>>>>>>> REPLACE')\<close>.\<close>

definition looksLikeEdit :: "string \<Rightarrow> bool" where
  "looksLikeEdit c \<longleftrightarrow>
     (if includesStr c ''<<<<<<< SEARCH'' then True
      else if includesStr c ''======='' then True
      else includesStr c ''>>>>>>> REPLACE'')"

text \<open>\<^verbatim>\<open>rawFilePath.includes('(') || rawFilePath.includes('{') ||
  rawFilePath.includes('=')\<close>.\<close>

definition looksLikeCode :: "string \<Rightarrow> bool" where
  "looksLikeCode p \<longleftrightarrow>
     (if includesStr p ''('' then True
      else if includesStr p ''{'' then True
      else includesStr p ''='')"

definition newArtifact ::
  "string \<Rightarrow> string \<Rightarrow> languageValue \<Rightarrow> string \<Rightarrow> string \<Rightarrow> artifact" where
  "newArtifact filePath c detectedLanguage newId src =
     \<lparr>path = filePath, content = c, language = detectedLanguage, artifact_id = newId,
      artifact_type = ''file'', createdBy = ''ai'', source = src,
      lineCount = length (splitOn (CHR 0x0A) c), size_chars = length c,
      addedToProject = False\<rparr>"

text \<open>
  The loop over the matches of one pattern; the state is \<^verbatim>\<open>artifacts\<close>,
  \<^verbatim>\<open>regularContent\<close> and \<^verbatim>\<open>lastIndex\<close> of the pattern, and \<open>n\<close> identifiers were
  generated before the first artifact.
  \<^verbatim>\<open>
  while ((match = pattern.exec(regularContent)) !== null && artifacts.length < 10) {
    const language = match[1] || 'text';
    const rawFilePath = match[2].trim();
    const content = match[3].trim();
    if (content.includes('<<<<<<< SEARCH') || ...) { continue; }
    if (rawFilePath.includes('(') || ...) { continue; }
    const filePath = validateAndSanitizePath(rawFilePath);
    const detectedLanguage = language === 'text' ? getLanguageFromPath(filePath) : language;
    const artifact = { path: filePath, content: content, language: detectedLanguage,
      id: generateSafeId(`artifact-${filePath}`), type: 'file', createdBy: 'ai', ...};
    artifacts.push(artifact);
    regularContent = regularContent.replace(match[0], '');
  }
  \<close>
  After \<^verbatim>\<open>continue\<close> the search goes on from the end of the match.  A skipped match
  that does not move \<^verbatim>\<open>lastIndex\<close> forward would be found again for ever; the loop of
  the model stops there (the patterns of the source begin with three back quotes and
  never match the empty string).
\<close>

function filePatternLoop ::
  "idSource \<Rightarrow> nat \<Rightarrow> regex \<Rightarrow> artifact list \<times> string \<times> nat \<Rightarrow> jsError + artifact list \<times> string"
where
  "filePatternLoop ids n pattern (arts, regularContent, lastIndex) =
     (case exec pattern regularContent lastIndex of
        None \<Rightarrow> Inr (arts, regularContent)
      | Some m \<Rightarrow>
          if \<not> length arts < 10 then Inr (arts, regularContent)
          else
            (let rawFilePath = trim (groupText m 2);
                 c = trim (groupText m 3)
             in if looksLikeEdit c \<or> looksLikeCode rawFilePath
                then (if matchEnd m \<le> lastIndex then Inr (arts, regularContent)
                      else filePatternLoop ids n pattern (arts, regularContent, matchEnd m))
                else
                  (let filePath = validateAndSanitizePath (Some rawFilePath);
                       detectedLanguage =
                         (if languageOf m 1 = ''text'' then getLanguageFromPath filePath
                          else LanguageName (languageOf m 1))
                   in case generateSafeId ids (n + length arts) (''artifact-'' @ filePath) of
                        Inl e \<Rightarrow> Inl e
                      | Inr newId \<Rightarrow>
                          filePatternLoop ids n pattern
                            (arts @ [newArtifact filePath c detectedLanguage newId ''parsed''],
                             removeFirst regularContent (matched m), matchEnd m))))"
  by pat_completeness auto
termination
  by (relation "measures [\<lambda>(ids, n, pattern, arts, regularContent, lastIndex). 10 - length arts,
                          \<lambda>(ids, n, pattern, arts, regularContent, lastIndex).
                             Suc (length regularContent) - lastIndex]")
     (auto simp: exec_def split: if_splits)

declare filePatternLoop.simps [simp del]

text \<open>\<^verbatim>\<open>for (const pattern of filePatterns) { pattern.lastIndex = 0; while ... }\<close>\<close>

fun filePatternsLoop ::
  "idSource \<Rightarrow> nat \<Rightarrow> artifact list \<times> string \<Rightarrow> regex list \<Rightarrow> jsError + artifact list \<times> string"
where
  "filePatternsLoop ids n st [] = Inr st"
| "filePatternsLoop ids n st (pattern # patterns) =
     (case filePatternLoop ids n pattern (fst st, snd st, 0) of
        Inl e \<Rightarrow> Inl e
      | Inr st' \<Rightarrow> filePatternsLoop ids n st' patterns)"

subsection \<open>Inline file markers\<close>

text \<open>
  \<^verbatim>\<open>
  const inlineFilePatterns = [
    /File:\s*([^\s]+)\s*\n```(\w+)?\s*\n([\s\S]*?)```/gi,
    /filename:\s*([^\s]+)\s*\n```(\w+)?\s*\n([\s\S]*?)```/gi,
    /##\s*FILE:\s*([^\n]+)\s*\n```(\w+)?\s*\n([\s\S]*?)```/gi
  ];
  \<close>
\<close>

definition inlineFilePatterns :: "regex list" where
  "inlineFilePatterns =
     [seqs [StrI ''File:'', Star isWhitespace, Group 1 (oneOrMore notSpace), Star isWhitespace,
            Str ''\<newline>'', Str ''```'', Opt (Group 2 (oneOrMore isWordChar)),
            Star isWhitespace, Str ''\<newline>'', Group 3 (StarLazy anyChar), Str ''```''],
      seqs [StrI ''filename:'', Star isWhitespace, Group 1 (oneOrMore notSpace),
            Star isWhitespace, Str ''\<newline>'', Str ''```'',
            Opt (Group 2 (oneOrMore isWordChar)), Star isWhitespace, Str ''\<newline>'',
            Group 3 (StarLazy anyChar), Str ''```''],
      seqs [Str ''##'', Star isWhitespace, StrI ''FILE:'', Star isWhitespace,
            Group 1 (oneOrMore notNewline), Star isWhitespace, Str ''\<newline>'', Str ''```'',
            Opt (Group 2 (oneOrMore isWordChar)), Star isWhitespace, Str ''\<newline>'',
            Group 3 (StarLazy anyChar), Str ''```'']]"

text \<open>
  \<^verbatim>\<open>
  while ((match = pattern.exec(regularContent)) !== null && artifacts.length < 5) {
    const rawFilePath = match[1].trim();
    const language = match[2] || 'text';
    const content = match[3].trim();
    if (content.includes('<<<<<<< SEARCH') || ...) { continue; }
    const filePath = validateAndSanitizePath(rawFilePath);
    ...
    artifacts.push(artifact);            // source: 'inline'
    regularContent = regularContent.replace(match[0], '');
  }
  \<close>
\<close>

function inlinePatternLoop ::
  "idSource \<Rightarrow> nat \<Rightarrow> regex \<Rightarrow> artifact list \<times> string \<times> nat \<Rightarrow> jsError + artifact list \<times> string"
where
  "inlinePatternLoop ids n pattern (arts, regularContent, lastIndex) =
     (case exec pattern regularContent lastIndex of
        None \<Rightarrow> Inr (arts, regularContent)
      | Some m \<Rightarrow>
          if \<not> length arts < 5 then Inr (arts, regularContent)
          else
            (let rawFilePath = trim (groupText m 1);
                 c = trim (groupText m 3)
             in if looksLikeEdit c
                then (if matchEnd m \<le> lastIndex then Inr (arts, regularContent)
                      else inlinePatternLoop ids n pattern (arts, regularContent, matchEnd m))
                else
                  (let filePath = validateAndSanitizePath (Some rawFilePath);
                       detectedLanguage =
                         (if languageOf m 2 = ''text'' then getLanguageFromPath filePath
                          else LanguageName (languageOf m 2))
                   in case generateSafeId ids (n + length arts) (''artifact-'' @ filePath) of
                        Inl e \<Rightarrow> Inl e
                      | Inr newId \<Rightarrow>
                          inlinePatternLoop ids n pattern
                            (arts @ [newArtifact filePath c detectedLanguage newId ''inline''],
                             removeFirst regularContent (matched m), matchEnd m))))"
  by pat_completeness auto
termination
  by (relation "measures [\<lambda>(ids, n, pattern, arts, regularContent, lastIndex). 5 - length arts,
                          \<lambda>(ids, n, pattern, arts, regularContent, lastIndex).
                             Suc (length regularContent) - lastIndex]")
     (auto simp: exec_def split: if_splits)

declare inlinePatternLoop.simps [simp del]

fun inlinePatternsLoop ::
  "idSource \<Rightarrow> nat \<Rightarrow> artifact list \<times> string \<Rightarrow> regex list \<Rightarrow> jsError + artifact list \<times> string"
where
  "inlinePatternsLoop ids n st [] = Inr st"
| "inlinePatternsLoop ids n st (pattern # patterns) =
     (case inlinePatternLoop ids n pattern (fst st, snd st, 0) of
        Inl e \<Rightarrow> Inl e
      | Inr st' \<Rightarrow> inlinePatternsLoop ids n st' patterns)"

subsection \<open>Prose and instructions\<close>

text \<open>\<^verbatim>\<open>/\n\s*\n\s*\n/g\<close>\<close>

definition blankLinesRegex :: regex where
  "blankLinesRegex =
     seqs [Str ''\<newline>'', Star isWhitespace, Str ''\<newline>'', Star isWhitespace,
           Str ''\<newline>'']"

text \<open>\<^verbatim>\<open>s.replace(regex, repl)\<close> for a global pattern and a replacement text without
  \<^verbatim>\<open>$\<close>: the matches are found from left to right; after an empty match the next
  character is copied.\<close>

function replaceAllRe :: "regex \<Rightarrow> string \<Rightarrow> string \<Rightarrow> string" where
  "replaceAllRe r repl s =
     (case searchRe r s 0 of
        None \<Rightarrow> s
      | Some m \<Rightarrow>
          if matched m = []
          then (case drop (match_index m) s of
                  [] \<Rightarrow> take (match_index m) s @ repl
                | x # rest \<Rightarrow> take (match_index m) s @ repl @ [x] @ replaceAllRe r repl rest)
          else take (match_index m) s @ repl @ replaceAllRe r repl (drop (matchEnd m) s))"
  by pat_completeness auto
termination
proof (relation "measure (\<lambda>(r, repl, s). length s)", goal_cases)
  case 1
  show ?case by simp
next
  case (2 r repl s m x rest)
  then have "length (drop (match_index m) s) = Suc (length rest)" by simp
  then show ?case by simp
next
  case (3 r repl s m)
  then have "s \<noteq> []" by (cases s) (auto split: option.splits)
  moreover from 3 have "0 < matchEnd m" by (simp add: matchEnd_def)
  ultimately show ?case by simp
qed

declare replaceAllRe.simps [simp del]

text \<open>\<^verbatim>\<open>/^\d+\./\<close> on a line.\<close>

definition numberedItem :: "string \<Rightarrow> bool" where
  "numberedItem t \<longleftrightarrow>
     takeWhile isDigit t \<noteq> [] \<and> take 1 (dropWhile isDigit t) = ''.''"

text \<open>
  \<^verbatim>\<open>
  if (regularContent.includes('1.') || regularContent.includes('First,') ||
      regularContent.includes('Step')) {
    const instructionLines = regularContent.split('\n').filter(line =>
      line.trim().match(/^\d+\./) ||
      line.trim().toLowerCase().startsWith('step') || ... 'first' ... 'next' ... 'then' ...
      line.trim().toLowerCase().startsWith('finally')
    ).slice(0, 10);
    if (instructionLines.length > 0) {
      instructions.push(...instructionLines.map(line => line.trim()));
    }
  }
  \<close>
\<close>

definition instructionLine :: "string \<Rightarrow> bool" where
  "instructionLine line \<longleftrightarrow>
     (let t = trim line; l = toLowerCase t
      in numberedItem t \<or> startsWith l ''step'' \<or> startsWith l ''first'' \<or>
         startsWith l ''next'' \<or> startsWith l ''then'' \<or> startsWith l ''finally'')"

definition parseInstructions :: "string \<Rightarrow> string list" where
  "parseInstructions regularContent =
     (if includesStr regularContent ''1.'' \<or> includesStr regularContent ''First,'' \<or>
         includesStr regularContent ''Step''
      then map trim (take 10 (filter instructionLine (splitOn (CHR 0x0A) regularContent)))
      else [])"

subsection \<open>The parser\<close>

record parseMetadata =
  totalArtifacts :: nat
  totalEdits :: nat
  parse_error :: "string option"

text \<open>The result of the parser, with the fields \<^verbatim>\<open>content\<close>, \<^verbatim>\<open>artifacts\<close>,
  \<^verbatim>\<open>edits\<close>, \<^verbatim>\<open>instructions\<close> and \<^verbatim>\<open>metadata\<close>; \<open>None\<close> is a field the returned
  object does not have.\<close>

record parsedResponse =
  parsed_content :: string
  parsed_artifacts :: "artifact list"
  parsed_edits :: "editGroup list"
  parsed_instructions :: "string list option"
  parsed_metadata :: "parseMetadata option"

text \<open>
  The body of the \<^verbatim>\<open>try\<close> block for a non-empty string message: \<open>Inl\<close> is an exception
  thrown inside it.
  \<^verbatim>\<open>
  const maxMessageSize = 50000;
  const limitedMessage = message.length > maxMessageSize
    ? message.substring(0, maxMessageSize) + '\n... (truncated for performance)'
    : message;
  const artifacts = [];
  const edits = [];
  let regularContent = limitedMessage;
  ... (edit blocks)
  const consolidatedEdits = Array.from(editsByFile.values());
  edits.push(...consolidatedEdits);
  ... (file-creation blocks, inline file markers)
  regularContent = regularContent
    .replace(/\n\s*\n\s*\n/g, '\n\n')
    .replace(/^\s+|\s+$/g, '')
    .trim();
  ... (instructions)
  return {
    content: regularContent,
    artifacts: artifacts.slice(0, 10),
    edits: edits.slice(0, 5),
    instructions: instructions,
    metadata: { totalArtifacts: artifacts.length, totalEdits: edits.length, parsedAt: ... }
  };
  \<close>
  \<^verbatim>\<open>replace(/^\s+|\s+$/g, '')\<close> removes the white space at both ends, as \<^verbatim>\<open>trim()\<close>
  does.
\<close>

definition parseBody :: "idSource \<Rightarrow> string \<Rightarrow> jsError + parsedResponse" where
  "parseBody ids message =
     (let limitedMessage =
            (if length message > 50000
             then take 50000 message @ ''\<newline>... (truncated for performance)''
             else message);
          editBlocks = editBlockLoop limitedMessage 0 []
      in case processEditBlocks ids (limitedMessage, []) editBlocks of
           Inl e \<Rightarrow> Inl e
         | Inr (regularContent, consolidatedEdits) \<Rightarrow>
             (case filePatternsLoop ids (length consolidatedEdits) ([], regularContent)
                     filePatterns of
                Inl e \<Rightarrow> Inl e
              | Inr st \<Rightarrow>
                  (case inlinePatternsLoop ids (length consolidatedEdits) st
                          inlineFilePatterns of
                     Inl e \<Rightarrow> Inl e
                   | Inr (arts, regularContent') \<Rightarrow>
                       (let cleaned =
                              trim (trim (replaceAllRe blankLinesRegex ''\<newline>\<newline>''
                                            regularContent'))
                        in Inr \<lparr>parsed_content = cleaned,
                                parsed_artifacts = take 10 arts,
                                parsed_edits = take 5 consolidatedEdits,
                                parsed_instructions = Some (parseInstructions cleaned),
                                parsed_metadata =
                                  Some \<lparr>totalArtifacts = length arts,
                                        totalEdits = length consolidatedEdits,
                                        parse_error = None\<rparr>\<rparr>))))"

text \<open>
  \<^verbatim>\<open>
  const parseLLMResponse = useCallback((message) => {
    try {
      if (!message || typeof message !== 'string') {
        return { content: '', artifacts: [], edits: [] };
      }
      ...
    } catch (error) {
      console.error('Error parsing LLM response:', error);
      return {
        content: message, artifacts: [], edits: [], instructions: [],
        metadata: { totalArtifacts: 0, totalEdits: 0, parsedAt: ..., error: error.message }
      };
    }
  }, [parseSearchReplace]);
  \<close>
  The message is \<open>None\<close> when it is not a string.
\<close>

definition parseLLMResponse :: "idSource \<Rightarrow> string option \<Rightarrow> parsedResponse" where
  "parseLLMResponse ids message =
     (case message of
        None \<Rightarrow>
          \<lparr>parsed_content = [], parsed_artifacts = [], parsed_edits = [],
           parsed_instructions = None, parsed_metadata = None\<rparr>
      | Some msg \<Rightarrow>
          if msg = []
          then \<lparr>parsed_content = [], parsed_artifacts = [], parsed_edits = [],
                 parsed_instructions = None, parsed_metadata = None\<rparr>
          else
            (case parseBody ids msg of
               Inr r \<Rightarrow> r
             | Inl (Thrown errorMessage) \<Rightarrow>
                 \<lparr>parsed_content = msg, parsed_artifacts = [], parsed_edits = [],
                  parsed_instructions = Some [],
                  parsed_metadata = Some \<lparr>totalArtifacts = 0, totalEdits = 0,
                                          parse_error = Some errorMessage\<rparr>\<rparr>))"

section \<open>Notions used to state the properties\<close>

text \<open>A run of result lines starting at line \<open>k\<close> matches the search lines: as many lines
  as the search has, equal to them line by line after trimming.\<close>

definition linesMatchAt :: "normalizedLine list \<Rightarrow> string list \<Rightarrow> nat \<Rightarrow> bool" where
  "linesMatchAt searchLs resultLines k \<longleftrightarrow>
     list_all2 (\<lambda>r s. trim r = line_content s)
       (take (length searchLs) (drop k resultLines)) searchLs"

text \<open>The indices at which \<open>s\<close> occurs in \<open>t\<close>, in increasing order.\<close>

definition occurrences :: "string \<Rightarrow> string \<Rightarrow> nat list" where
  "occurrences s t =
     (if length s \<le> length t
      then filter (\<lambda>j. take (length s) (drop j t) = s) [0..<Suc (length t - length s)]
      else [])"

text \<open>The number of operations of all edit groups together.\<close>

definition opsTotal :: "editGroup list \<Rightarrow> nat" where
  "opsTotal gs = sum_list (map (\<lambda>g. length (edit_operations g)) gs)"

text \<open>A lower bound of the length of every match of a pattern.\<close>

fun minLen :: "regex \<Rightarrow> nat" where
  "minLen (Chars p) = 1"
| "minLen (Str l) = length l"
| "minLen (StrI l) = length l"
| "minLen (Star p) = 0"
| "minLen (StarLazy p) = 0"
| "minLen (Opt r) = 0"
| "minLen (Alt a b) = min (minLen a) (minLen b)"
| "minLen (Seq a b) = minLen a + minLen b"
| "minLen (Group i r) = minLen r"

section \<open>Example inputs\<close>

text \<open>One operation in the syntax of an edit block, an edit block for \<^verbatim>\<open>a.js\<close> with \<open>n\<close>
  operations, an identifier source that always gives the same text, and one whose every
  call throws.\<close>

definition exampleOperation :: string where
  "exampleOperation = ''<<<<<<< SEARCH\<newline>a\<newline>=======\<newline>b\<newline>>>>>>>> REPLACE\<newline>''"

definition exampleEditBlock :: "nat \<Rightarrow> string" where
  "exampleEditBlock n =
     ''```edit\<newline>@@@ a.js\<newline>'' @ concat (replicate n exampleOperation) @ ''```\<newline>''"

definition fixedIds :: idSource where
  "fixedIds n = Inr ''0-0-0''"

definition failingIds :: idSource where
  "failingIds n = Inl (Thrown ''performance is not defined'')"

section \<open>Properties of the string functions\<close>

lemma take_drop_eq_occursAt:
  "take (length s) (drop j t) = s \<Longrightarrow> j \<le> length t - length s \<Longrightarrow> length s \<le> length t \<Longrightarrow> occursAt s t j"
  by (simp add: occursAt_def)

lemma lastIndexFrom_Some:
  "lastIndexFrom t s n = Some i \<longleftrightarrow>
     i < n \<and> take (length s) (drop i t) = s \<and> (\<forall>j. i < j \<and> j < n \<longrightarrow> take (length s) (drop j t) \<noteq> s)"
proof (induction n)
  case 0
  show ?case by simp
next
  case (Suc n)
  show ?case
  proof (cases "take (length s) (drop n t) = s")
    case True
    then show ?thesis
      by (auto simp: less_Suc_eq) 
  next
    case False
    then show ?thesis
      using Suc.IH by (auto simp: less_Suc_eq)
  qed
qed

lemma lastIndexFrom_None:
  "lastIndexFrom t s n = None \<longleftrightarrow> (\<forall>j<n. take (length s) (drop j t) \<noteq> s)"
  by (induction n) (auto simp: less_Suc_eq)

lemma occursAt_iff:
  "occursAt s t j \<longleftrightarrow> length s \<le> length t \<and> j < Suc (length t - length s) \<and> take (length s) (drop j t) = s"
  by (auto simp: occursAt_def)

lemma lastIndexOf_Some:
  "lastIndexOf t s = Some i \<longleftrightarrow> occursAt s t i \<and> (\<forall>j>i. \<not> occursAt s t j)"
  unfolding lastIndexOf_def
  by (cases "length s \<le> length t") (auto simp: lastIndexFrom_Some occursAt_iff simp del: lastIndexFrom.simps)

lemma lastIndexOf_None:
  "lastIndexOf t s = None \<longleftrightarrow> (\<forall>j. \<not> occursAt s t j)"
  unfolding lastIndexOf_def
  by (cases "length s \<le> length t") (auto simp: lastIndexFrom_None occursAt_iff simp del: lastIndexFrom.simps)

lemma occursAt_occurrences: "occursAt s t j \<longleftrightarrow> j \<in> set (occurrences s t)"
  by (auto simp: occursAt_iff occurrences_def simp del: upt_Suc)

section \<open>Deduplication\<close>

lemma dedupeFrom_idem: "dedupeFrom seen (dedupeFrom seen xs) = dedupeFrom seen xs"
  by (induction xs arbitrary: seen) auto

lemma dedupeFrom_index:
  "dedupeFrom seen xs =
     map ((!) xs) (filter (\<lambda>i. path (xs ! i) \<notin> seen \<and> (\<forall>j<i. path (xs ! j) \<noteq> path (xs ! i)))
       [0..<length xs])"
proof (induction xs arbitrary: seen)
  case Nil
  show ?case by simp
next
  case (Cons a as)
  let ?P = "\<lambda>s i. path (as ! i) \<notin> s \<and> (\<forall>j<i. path (as ! j) \<noteq> path (as ! i))"
  let ?Q = "\<lambda>i. path ((a # as) ! i) \<notin> seen \<and> (\<forall>j<i. path ((a # as) ! j) \<noteq> path ((a # as) ! i))"
  have upt: "[0..<length (a # as)] = 0 # map Suc [0..<length as]"
    by (simp add: upt_conv_Cons map_Suc_upt del: upt_Suc)
  have tl: "map ((!) (a # as)) (filter ?Q (map Suc [0..<length as]))
      = map ((!) as) (filter (?Q \<circ> Suc) [0..<length as])"
    by (simp add: filter_map comp_def)
  show ?case
  proof (cases "path a \<in> seen")
    case True
    have "?Q \<circ> Suc = ?P seen"
      using True by (auto simp: fun_eq_iff less_Suc_eq_0_disj)
    with True tl show ?thesis
      unfolding upt by (simp add: Cons.IH)
  next
    case False
    have "?Q \<circ> Suc = ?P (insert (path a) seen)"
      by (auto simp: fun_eq_iff less_Suc_eq_0_disj)
    with False tl show ?thesis
      unfolding upt by (simp add: Cons.IH)
  qed
qed

text \<open>
  Claim C9.  For every artifact list \<open>xs\<close>, \<open>deduplicateArtifacts xs\<close> consists of the
  elements of \<open>xs\<close> whose path does not occur at an earlier index, in the order of \<open>xs\<close>:
  the first occurrence of each path is kept and later duplicates are dropped.  Deduplication
  is idempotent.
\<close>

theorem deduplicateArtifacts_first_occurrences:
  "deduplicateArtifacts xs =
     map ((!) xs) (filter (\<lambda>i. \<forall>j<i. path (xs ! j) \<noteq> path (xs ! i)) [0..<length xs]) \<and>
   deduplicateArtifacts (deduplicateArtifacts xs) = deduplicateArtifacts xs"
proof
  show "deduplicateArtifacts xs =
     map ((!) xs) (filter (\<lambda>i. \<forall>j<i. path (xs ! j) \<noteq> path (xs ! i)) [0..<length xs])"
    unfolding deduplicateArtifacts_def by (simp add: dedupeFrom_index [of "{}"])
  show "deduplicateArtifacts (deduplicateArtifacts xs) = deduplicateArtifacts xs"
    unfolding deduplicateArtifacts_def by (rule dedupeFrom_idem)
qed

text \<open>The theorem of C9 at a list whose third element repeats the path of the first.\<close>

theorem deduplicateArtifacts_first_occurrences_witness:
  "deduplicateArtifacts [fileAt ''a.js'', fileAt ''b.js'', (fileAt ''a.js'')\<lparr>content := ''later''\<rparr>]
     = [fileAt ''a.js'', fileAt ''b.js''] \<and>
   deduplicateArtifacts (deduplicateArtifacts
       [fileAt ''a.js'', fileAt ''b.js'', (fileAt ''a.js'')\<lparr>content := ''later''\<rparr>])
     = [fileAt ''a.js'', fileAt ''b.js'']"
proof -
  let ?xs = "[fileAt ''a.js'', fileAt ''b.js'', (fileAt ''a.js'')\<lparr>content := ''later''\<rparr>]"
  note inst = deduplicateArtifacts_first_occurrences [of ?xs]
  have idx: "[0..<length ?xs] = [0, 1, 2]"
    by (simp add: upt_rec)
  have one: "\<And>P. (\<forall>j<(1::nat). P j) = P 0"
    by simp
  have two: "\<And>P. (\<forall>j<(2::nat). P j) = (P 0 \<and> P 1)"
    by (auto simp: less_Suc_eq numeral_2_eq_2)
  have keep: "filter (\<lambda>i. \<forall>j<i. path (?xs ! j) \<noteq> path (?xs ! i)) [0, 1, 2] = [0, 1]"
    by (simp add: one two fileAt_def)
  have "deduplicateArtifacts ?xs = map ((!) ?xs) [0, 1]"
    using inst [THEN conjunct1] unfolding idx keep .
  then have first: "deduplicateArtifacts ?xs = [fileAt ''a.js'', fileAt ''b.js'']"
    by simp
  from inst [THEN conjunct2] have "deduplicateArtifacts (deduplicateArtifacts ?xs) = deduplicateArtifacts ?xs" .
  with first show ?thesis
    by (simp only: simp_thms)
qed

section \<open>Resolution of the target file\<close>

lemma find_first_index:
  "find P xs = Some a \<longleftrightarrow> (\<exists>i<length xs. xs ! i = a \<and> P a \<and> (\<forall>j<i. \<not> P (xs ! j)))"
  by (auto simp: find_Some_iff)

lemma find_None_set: "find P xs = None \<longleftrightarrow> (\<forall>a\<in>set xs. \<not> P a)"
  by (auto simp: find_None_iff)

lemma find_Some_set: "find P xs = Some a \<Longrightarrow> a \<in> set xs \<and> P a"
  by (auto simp: find_Some_iff)

lemma find_replicate: "find P (replicate n a) = (if 0 < n \<and> P a then Some a else None)"
  by (induction n) auto

lemma cascade_result:
  assumes "r = (case find P xs of Some art \<Rightarrow> Some art
                | None \<Rightarrow> (case find Q xs of Some art \<Rightarrow> Some art | None \<Rightarrow> find R xs))"
  shows "(r = None \<longleftrightarrow> (\<forall>a\<in>set xs. \<not> P a \<and> \<not> Q a \<and> \<not> R a)) \<and>
     (\<forall>a. r = Some a \<longrightarrow>
        (\<exists>i<length xs. xs ! i = a \<and>
           (P a \<and> (\<forall>j<i. \<not> P (xs ! j)) \<or>
            (\<forall>b\<in>set xs. \<not> P b) \<and> Q a \<and> (\<forall>j<i. \<not> Q (xs ! j)) \<or>
            (\<forall>b\<in>set xs. \<not> P b \<and> \<not> Q b) \<and> R a \<and> (\<forall>j<i. \<not> R (xs ! j)))))"
proof (intro conjI allI impI)
  show "r = None \<longleftrightarrow> (\<forall>a\<in>set xs. \<not> P a \<and> \<not> Q a \<and> \<not> R a)"
    unfolding assms by (auto simp: find_None_set split: option.splits dest: find_Some_set)
next
  fix a
  assume "r = Some a"
  then have "find P xs = Some a \<or>
     find P xs = None \<and> find Q xs = Some a \<or>
     find P xs = None \<and> find Q xs = None \<and> find R xs = Some a"
    unfolding assms by (auto split: option.splits)
  then show "\<exists>i<length xs. xs ! i = a \<and>
           (P a \<and> (\<forall>j<i. \<not> P (xs ! j)) \<or>
            (\<forall>b\<in>set xs. \<not> P b) \<and> Q a \<and> (\<forall>j<i. \<not> Q (xs ! j)) \<or>
            (\<forall>b\<in>set xs. \<not> P b \<and> \<not> Q b) \<and> R a \<and> (\<forall>j<i. \<not> R (xs ! j)))"
    unfolding find_first_index find_None_set by blast
qed

lemma findTargetFileForEdit_nonempty:
  "artifacts \<noteq> [] \<Longrightarrow>
   findTargetFileForEdit (Some artifacts) editPath =
     (case find (exactMatch (normalizePath editPath)) (take 50 artifacts) of
        Some art \<Rightarrow> Some art
      | None \<Rightarrow>
          (case find (fileNameMatch (normalizePath editPath)) (take 50 artifacts) of
             Some art \<Rightarrow> Some art
           | None \<Rightarrow> find (containsMatch (normalizePath editPath)) (take 50 artifacts)))"
  by (simp add: findTargetFileForEdit_def Let_def)

lemma findTargetFileForEdit_empty: "findTargetFileForEdit (Some []) editPath = None"
  by (simp add: findTargetFileForEdit_def)

text \<open>The three tests at an artifact that has only a path, and the normal forms of the
  paths used in the examples.\<close>

lemma targetTests_simps:
  "exactMatch e (fileAt p) \<longleftrightarrow> normalizePath p = e"
  "fileNameMatch e (fileAt p) \<longleftrightarrow> fileName (normalizePath p) = fileName e"
  "containsMatch e (fileAt p) \<longleftrightarrow>
     includesStr (normalizePath p) e \<or> includesStr e (normalizePath p)"
  by (simp_all add: exactMatch_def fileNameMatch_def containsMatch_def fileAt_def)

lemma normalizePath_examples:
  "normalizePath ''a.js'' = ''a.js''"
  "normalizePath ''src/a.js'' = ''src/a.js''"
  "normalizePath ''x.py'' = ''x.py''"
  "normalizePath ''lib/a.js'' = ''lib/a.js''"
  "normalizePath ''lib/util.js'' = ''lib/util.js''"
  "normalizePath ''src/App.jsx'' = ''src/app.jsx''"
  "normalizePath [CHR 0x5C, CHR ''S'', CHR ''R'', CHR ''C'', CHR 0x5C, CHR ''A'', CHR ''p'', CHR ''p'', CHR ''.'', CHR ''J'', CHR ''S'', CHR ''X''] = ''src/app.jsx''"
  "normalizePath ''src/components/Button.jsx'' = ''src/components/button.jsx''"
  "normalizePath ''components/Button'' = ''components/button''"
  by code_simp+

text \<open>
  Claim C6, amended.  The stages run in order over the first 50 artifacts, the only ones
  that are examined: the result is \<open>None\<close> exactly when none of the first 50 artifacts
  passes any of the three tests, and a returned artifact is, among the first 50, the first
  one passing the exact test, or else (none of them passing the exact test) the first one
  passing the file-name test, or else (none of them passing the first two tests) the first
  one passing the containment test.  For the artifacts \<open>src/a.js\<close>, \<open>a.js\<close> and the
  declared path \<open>a.js\<close> the artifact \<open>a.js\<close> is returned.
\<close>

theorem findTargetFileForEdit_cascade:
  fixes artifacts :: "artifact list" and editPath :: string
  defines "e \<equiv> normalizePath editPath" and "xs \<equiv> take 50 artifacts"
  shows
    "(findTargetFileForEdit (Some artifacts) editPath = None \<longleftrightarrow>
        (\<forall>a\<in>set xs. \<not> exactMatch e a \<and> \<not> fileNameMatch e a \<and> \<not> containsMatch e a)) \<and>
     (\<forall>a. findTargetFileForEdit (Some artifacts) editPath = Some a \<longrightarrow>
        (\<exists>i<length xs. xs ! i = a \<and>
           (exactMatch e a \<and> (\<forall>j<i. \<not> exactMatch e (xs ! j)) \<or>
            (\<forall>b\<in>set xs. \<not> exactMatch e b) \<and>
              fileNameMatch e a \<and> (\<forall>j<i. \<not> fileNameMatch e (xs ! j)) \<or>
            (\<forall>b\<in>set xs. \<not> exactMatch e b \<and> \<not> fileNameMatch e b) \<and>
              containsMatch e a \<and> (\<forall>j<i. \<not> containsMatch e (xs ! j))))) \<and>
     findTargetFileForEdit (Some [fileAt ''src/a.js'', fileAt ''a.js'']) ''a.js''
       = Some (fileAt ''a.js'')"
proof -
  have general:
    "(findTargetFileForEdit (Some artifacts) editPath = None \<longleftrightarrow>
        (\<forall>a\<in>set xs. \<not> exactMatch e a \<and> \<not> fileNameMatch e a \<and> \<not> containsMatch e a)) \<and>
     (\<forall>a. findTargetFileForEdit (Some artifacts) editPath = Some a \<longrightarrow>
        (\<exists>i<length xs. xs ! i = a \<and>
           (exactMatch e a \<and> (\<forall>j<i. \<not> exactMatch e (xs ! j)) \<or>
            (\<forall>b\<in>set xs. \<not> exactMatch e b) \<and>
              fileNameMatch e a \<and> (\<forall>j<i. \<not> fileNameMatch e (xs ! j)) \<or>
            (\<forall>b\<in>set xs. \<not> exactMatch e b \<and> \<not> fileNameMatch e b) \<and>
              containsMatch e a \<and> (\<forall>j<i. \<not> containsMatch e (xs ! j)))))"
  proof (cases "artifacts = []")
    case True
    then show ?thesis
      by (simp add: findTargetFileForEdit_empty xs_def)
  next
    case False
    show ?thesis
      unfolding e_def xs_def
      by (rule cascade_result) (rule findTargetFileForEdit_nonempty [OF False])
  qed
  have example:
    "findTargetFileForEdit (Some [fileAt ''src/a.js'', fileAt ''a.js'']) ''a.js''
       = Some (fileAt ''a.js'')"
    by (simp add: findTargetFileForEdit_def exactMatch_def normalizePath_def toLowerCase_def
        toLowerChar_def backslashToSlash_def fileAt_def)
  from general example show ?thesis
    by (intro conjI) (elim conjE, assumption)+
qed

text \<open>
  Claim C6 as stated fails, since it speaks of all artifacts: in the list of the 51
  artifacts \<open>src/a.js\<close>, 49 times \<open>x.py\<close>, \<open>a.js\<close>, the last one passes the exact test
  for the declared path \<open>a.js\<close> and the first one does not, but the first one is returned
  (by the file-name stage), because the artifact at index 50 is not examined.
\<close>

theorem findTargetFileForEdit_cascade_counterexample:
  "length (fileAt ''src/a.js'' # replicate 49 (fileAt ''x.py'') @ [fileAt ''a.js'']) = 51 \<and>
   (fileAt ''src/a.js'' # replicate 49 (fileAt ''x.py'') @ [fileAt ''a.js'']) ! 50 = fileAt ''a.js'' \<and>
   exactMatch (normalizePath ''a.js'') (fileAt ''a.js'') \<and>
   \<not> exactMatch (normalizePath ''a.js'') (fileAt ''src/a.js'') \<and>
   findTargetFileForEdit
     (Some (fileAt ''src/a.js'' # replicate 49 (fileAt ''x.py'') @ [fileAt ''a.js''])) ''a.js''
     = Some (fileAt ''src/a.js'')"
proof -
  let ?xs = "fileAt ''src/a.js'' # replicate 49 (fileAt ''x.py'') @ [fileAt ''a.js'']"
  have len: "length ?xs = 51" by simp
  have "?xs ! 50 = (replicate 49 (fileAt ''x.py'') @ [fileAt ''a.js'']) ! 49"
    by (simp add: nth_Cons')
  also have "\<dots> = fileAt ''a.js''"
    using nth_append_length [of "replicate 49 (fileAt ''x.py'')" "fileAt ''a.js''" "[]"]
    by simp
  finally have last: "?xs ! 50 = fileAt ''a.js''" .
  have cut: "take 50 ?xs = fileAt ''src/a.js'' # replicate 49 (fileAt ''x.py'')"
    by (simp add: take_Cons')
  have tests: "exactMatch (normalizePath ''a.js'') (fileAt ''a.js'')"
    "\<not> exactMatch (normalizePath ''a.js'') (fileAt ''src/a.js'')"
    "\<not> exactMatch (normalizePath ''a.js'') (fileAt ''x.py'')"
    "fileNameMatch (normalizePath ''a.js'') (fileAt ''src/a.js'')"
    by (simp_all add: targetTests_simps normalizePath_examples fileName_def)
  have res: "findTargetFileForEdit (Some ?xs) ''a.js'' = Some (fileAt ''src/a.js'')"
    unfolding findTargetFileForEdit_def Let_def cut
    by (simp add: tests find_replicate)
  from len last tests res show ?thesis by simp
qed

text \<open>The theorem of C6 at the two artifacts of the example (the returned artifact passes
  the exact test, while the first artifact passes the file-name test only); at a declared
  path written with backslashes and capitals, which matches exactly after normalisation; at
  a declared path of which only the file name matches; at a declared path that is contained
  in the path of an artifact; and at a declared path that passes no test.\<close>

theorem findTargetFileForEdit_cascade_witness:
  "findTargetFileForEdit (Some [fileAt ''src/a.js'', fileAt ''a.js'']) ''a.js''
     = Some (fileAt ''a.js'') \<and>
   exactMatch (normalizePath ''a.js'') (fileAt ''a.js'') \<and>
   \<not> exactMatch (normalizePath ''a.js'') (fileAt ''src/a.js'') \<and>
   fileNameMatch (normalizePath ''a.js'') (fileAt ''src/a.js'') \<and>
   (\<exists>i<2. [fileAt ''src/a.js'', fileAt ''a.js''] ! i = fileAt ''a.js'') \<and>
   findTargetFileForEdit (Some [fileAt ''lib/util.js'', fileAt ''src/App.jsx''])
       [CHR 0x5C, CHR ''S'', CHR ''R'', CHR ''C'', CHR 0x5C, CHR ''A'', CHR ''p'', CHR ''p'', CHR ''.'', CHR ''J'', CHR ''S'', CHR ''X'']
     = Some (fileAt ''src/App.jsx'') \<and>
   findTargetFileForEdit (Some [fileAt ''x.py'', fileAt ''src/a.js'']) ''lib/a.js''
     = Some (fileAt ''src/a.js'') \<and>
   findTargetFileForEdit (Some [fileAt ''x.py'', fileAt ''src/components/Button.jsx''])
       ''components/Button''
     = Some (fileAt ''src/components/Button.jsx'') \<and>
   findTargetFileForEdit (Some [fileAt ''x.py'']) ''a.js'' = None"
proof -
  let ?xs = "[fileAt ''src/a.js'', fileAt ''a.js'']"
  note c = findTargetFileForEdit_cascade [of ?xs "''a.js''"]
  have r: "findTargetFileForEdit (Some ?xs) ''a.js'' = Some (fileAt ''a.js'')"
    using c by simp
  from c r have "\<exists>i<length (take 50 ?xs). take 50 ?xs ! i = fileAt ''a.js''"
    by blast
  then have idx: "\<exists>i<2. ?xs ! i = fileAt ''a.js''"
    by (simp add: numeral_2_eq_2)
  have facts: "exactMatch (normalizePath ''a.js'') (fileAt ''a.js'') \<and>
     \<not> exactMatch (normalizePath ''a.js'') (fileAt ''src/a.js'') \<and>
     fileNameMatch (normalizePath ''a.js'') (fileAt ''src/a.js'')"
    by (simp add: targetTests_simps normalizePath_examples fileName_def)
  let ?bs = "[CHR 0x5C, CHR ''S'', CHR ''R'', CHR ''C'', CHR 0x5C, CHR ''A'', CHR ''p'', CHR ''p'', CHR ''.'', CHR ''J'', CHR ''S'', CHR ''X'']"
  let ?ys = "[fileAt ''lib/util.js'', fileAt ''src/App.jsx'']"
  have y1: "exactMatch (normalizePath ?bs) (fileAt ''src/App.jsx'')"
    and y2: "\<not> exactMatch (normalizePath ?bs) (fileAt ''lib/util.js'')"
    and y3: "\<not> fileNameMatch (normalizePath ?bs) (fileAt ''lib/util.js'')"
    and y4: "\<not> containsMatch (normalizePath ?bs) (fileAt ''lib/util.js'')"
    by (simp_all add: targetTests_simps normalizePath_examples fileName_def includesStr_def)
  have n1: "findTargetFileForEdit (Some ?ys) ?bs = Some (fileAt ''src/App.jsx'')"
  proof (cases "findTargetFileForEdit (Some ?ys) ?bs")
    case None
    with findTargetFileForEdit_cascade [of ?ys ?bs] y1 show ?thesis by simp
  next
    case (Some a)
    with findTargetFileForEdit_cascade [of ?ys ?bs]
    have "\<exists>i<length (take 50 ?ys). take 50 ?ys ! i = a \<and>
       (exactMatch (normalizePath ?bs) a \<or> fileNameMatch (normalizePath ?bs) a \<or>
        containsMatch (normalizePath ?bs) a)"
      by blast
    then have "a \<in> set ?ys \<and> (exactMatch (normalizePath ?bs) a \<or>
        fileNameMatch (normalizePath ?bs) a \<or> containsMatch (normalizePath ?bs) a)"
      by (auto simp: less_Suc_eq numeral_2_eq_2)
    with y2 y3 y4 have "a = fileAt ''src/App.jsx''" by auto
    with Some show ?thesis by simp
  qed
  let ?zs = "[fileAt ''x.py'', fileAt ''src/a.js'']"
  have z1: "fileNameMatch (normalizePath ''lib/a.js'') (fileAt ''src/a.js'')"
    and z2: "\<not> exactMatch (normalizePath ''lib/a.js'') (fileAt ''x.py'')"
    and z3: "\<not> fileNameMatch (normalizePath ''lib/a.js'') (fileAt ''x.py'')"
    and z4: "\<not> containsMatch (normalizePath ''lib/a.js'') (fileAt ''x.py'')"
    by (simp_all add: targetTests_simps normalizePath_examples fileName_def includesStr_def)
  have n2: "findTargetFileForEdit (Some ?zs) ''lib/a.js'' = Some (fileAt ''src/a.js'')"
  proof (cases "findTargetFileForEdit (Some ?zs) ''lib/a.js''")
    case None
    with findTargetFileForEdit_cascade [of ?zs "''lib/a.js''"] z1 show ?thesis by simp
  next
    case (Some a)
    with findTargetFileForEdit_cascade [of ?zs "''lib/a.js''"]
    have "\<exists>i<length (take 50 ?zs). take 50 ?zs ! i = a \<and>
       (exactMatch (normalizePath ''lib/a.js'') a \<or> fileNameMatch (normalizePath ''lib/a.js'') a \<or>
        containsMatch (normalizePath ''lib/a.js'') a)"
      by blast
    then have "a \<in> set ?zs \<and> (exactMatch (normalizePath ''lib/a.js'') a \<or>
        fileNameMatch (normalizePath ''lib/a.js'') a \<or> containsMatch (normalizePath ''lib/a.js'') a)"
      by (auto simp: less_Suc_eq numeral_2_eq_2)
    with z2 z3 z4 have "a = fileAt ''src/a.js''" by auto
    with Some show ?thesis by simp
  qed
  let ?ws = "[fileAt ''x.py'', fileAt ''src/components/Button.jsx'']"
  have w1: "containsMatch (normalizePath ''components/Button'') (fileAt ''src/components/Button.jsx'')"
    and w2: "\<not> exactMatch (normalizePath ''components/Button'') (fileAt ''x.py'')"
    and w3: "\<not> fileNameMatch (normalizePath ''components/Button'') (fileAt ''x.py'')"
    and w4: "\<not> containsMatch (normalizePath ''components/Button'') (fileAt ''x.py'')"
    by (simp_all add: targetTests_simps normalizePath_examples fileName_def includesStr_def)
  have n3: "findTargetFileForEdit (Some ?ws) ''components/Button''
      = Some (fileAt ''src/components/Button.jsx'')"
  proof (cases "findTargetFileForEdit (Some ?ws) ''components/Button''")
    case None
    with findTargetFileForEdit_cascade [of ?ws "''components/Button''"] w1 show ?thesis by simp
  next
    case (Some a)
    with findTargetFileForEdit_cascade [of ?ws "''components/Button''"]
    have "\<exists>i<length (take 50 ?ws). take 50 ?ws ! i = a \<and>
       (exactMatch (normalizePath ''components/Button'') a \<or>
        fileNameMatch (normalizePath ''components/Button'') a \<or>
        containsMatch (normalizePath ''components/Button'') a)"
      by blast
    then have "a \<in> set ?ws \<and> (exactMatch (normalizePath ''components/Button'') a \<or>
        fileNameMatch (normalizePath ''components/Button'') a \<or>
        containsMatch (normalizePath ''components/Button'') a)"
      by (auto simp: less_Suc_eq numeral_2_eq_2)
    with w2 w3 w4 have "a = fileAt ''src/components/Button.jsx''" by auto
    with Some show ?thesis by simp
  qed
  have v: "\<not> exactMatch (normalizePath ''a.js'') (fileAt ''x.py'')"
    "\<not> fileNameMatch (normalizePath ''a.js'') (fileAt ''x.py'')"
    "\<not> containsMatch (normalizePath ''a.js'') (fileAt ''x.py'')"
    by (simp_all add: targetTests_simps normalizePath_examples fileName_def includesStr_def)
  have n4: "findTargetFileForEdit (Some [fileAt ''x.py'']) ''a.js'' = None"
    using findTargetFileForEdit_cascade [of "[fileAt ''x.py'']" "''a.js''"] v by simp
  from r idx facts n1 n2 n3 n4 show ?thesis by simp
qed

text \<open>
  Claim C10.  Only the first 50 artifacts are examined: the result is that for the list cut
  to its first 50 elements, and it is \<open>None\<close> when no artifact at an index below 50 passes
  any of the three tests, whatever stands at index 50 and beyond.
\<close>

theorem findTargetFileForEdit_first_50:
  "findTargetFileForEdit (Some artifacts) editPath
     = findTargetFileForEdit (Some (take 50 artifacts)) editPath \<and>
   ((\<forall>i<length artifacts. i < 50 \<longrightarrow>
        \<not> exactMatch (normalizePath editPath) (artifacts ! i) \<and>
        \<not> fileNameMatch (normalizePath editPath) (artifacts ! i) \<and>
        \<not> containsMatch (normalizePath editPath) (artifacts ! i)) \<longrightarrow>
    findTargetFileForEdit (Some artifacts) editPath = None)"
proof
  show "findTargetFileForEdit (Some artifacts) editPath
     = findTargetFileForEdit (Some (take 50 artifacts)) editPath"
    by (cases "artifacts = []") (simp_all add: findTargetFileForEdit_def Let_def)
next
  show "(\<forall>i<length artifacts. i < 50 \<longrightarrow>
        \<not> exactMatch (normalizePath editPath) (artifacts ! i) \<and>
        \<not> fileNameMatch (normalizePath editPath) (artifacts ! i) \<and>
        \<not> containsMatch (normalizePath editPath) (artifacts ! i)) \<longrightarrow>
    findTargetFileForEdit (Some artifacts) editPath = None"
  proof
    assume none: "\<forall>i<length artifacts. i < 50 \<longrightarrow>
        \<not> exactMatch (normalizePath editPath) (artifacts ! i) \<and>
        \<not> fileNameMatch (normalizePath editPath) (artifacts ! i) \<and>
        \<not> containsMatch (normalizePath editPath) (artifacts ! i)"
    have "\<forall>a\<in>set (take 50 artifacts).
        \<not> exactMatch (normalizePath editPath) a \<and>
        \<not> fileNameMatch (normalizePath editPath) a \<and>
        \<not> containsMatch (normalizePath editPath) a"
    proof
      fix a
      assume "a \<in> set (take 50 artifacts)"
      then obtain i where "i < length (take 50 artifacts)" "take 50 artifacts ! i = a"
        by (auto simp: in_set_conv_nth)
      with none show "\<not> exactMatch (normalizePath editPath) a \<and>
        \<not> fileNameMatch (normalizePath editPath) a \<and>
        \<not> containsMatch (normalizePath editPath) a"
        by auto
    qed
    then have "find (exactMatch (normalizePath editPath)) (take 50 artifacts) = None"
      "find (fileNameMatch (normalizePath editPath)) (take 50 artifacts) = None"
      "find (containsMatch (normalizePath editPath)) (take 50 artifacts) = None"
      by (simp_all add: find_None_set)
    then show "findTargetFileForEdit (Some artifacts) editPath = None"
      by (simp add: findTargetFileForEdit_def Let_def)
  qed
qed

text \<open>The theorem of C10 at a list of 51 artifacts whose last one is an exact match.\<close>

theorem findTargetFileForEdit_first_50_witness:
  "exactMatch (normalizePath ''a.js'') ((replicate 50 (fileAt ''x.py'') @ [fileAt ''a.js'']) ! 50) \<and>
   findTargetFileForEdit (Some (replicate 50 (fileAt ''x.py'') @ [fileAt ''a.js''])) ''a.js'' = None"
proof -
  let ?xs = "replicate 50 (fileAt ''x.py'') @ [fileAt ''a.js'']"
  have no: "\<not> exactMatch (normalizePath ''a.js'') (fileAt ''x.py'') \<and>
        \<not> fileNameMatch (normalizePath ''a.js'') (fileAt ''x.py'') \<and>
        \<not> containsMatch (normalizePath ''a.js'') (fileAt ''x.py'')"
    by (simp add: exactMatch_def fileNameMatch_def containsMatch_def fileName_def
        normalizePath_def toLowerCase_def toLowerChar_def backslashToSlash_def fileAt_def
        includesStr_def)
  have hyp: "\<forall>i<length ?xs. i < 50 \<longrightarrow>
        \<not> exactMatch (normalizePath ''a.js'') (?xs ! i) \<and>
        \<not> fileNameMatch (normalizePath ''a.js'') (?xs ! i) \<and>
        \<not> containsMatch (normalizePath ''a.js'') (?xs ! i)"
    using no by (simp add: nth_append)
  have last: "exactMatch (normalizePath ''a.js'') (?xs ! 50)"
    by (simp add: nth_append exactMatch_def normalizePath_def toLowerCase_def toLowerChar_def
        backslashToSlash_def fileAt_def)
  from findTargetFileForEdit_first_50 [of ?xs "''a.js''"] hyp last show ?thesis
    by blast
qed

section \<open>Path sanitizer: what holds and what does not\<close>

text \<open>The result is never empty and has none of the characters \<^verbatim>\<open><>:"|?*\<close>.\<close>

lemma validateAndSanitizePath_clean:
  "validateAndSanitizePath p \<noteq> [] \<and> (\<forall>c\<in>set (validateAndSanitizePath p). \<not> forbiddenChar c)"
proof (cases p)
  case None
  then show ?thesis
    by (simp add: validateAndSanitizePath_def forbiddenChar_def)
next
  case (Some s)
  define t where "t = filter (\<lambda>c. \<not> forbiddenChar c) (trim (backslashToSlash (removeDotDot s)))"
  have clean: "\<forall>c\<in>set t. \<not> forbiddenChar c"
    by (simp add: t_def)
  have lits: "\<forall>c\<in>set ''.txt''. \<not> forbiddenChar c" "\<forall>c\<in>set ''unknown.txt''. \<not> forbiddenChar c"
    by (simp_all add: forbiddenChar_def)
  have dot: "includesStr t ''.'' \<Longrightarrow> t \<noteq> []"
    by (auto simp: includesStr_def)
  have slash: "endsWith t ''/'' \<Longrightarrow> t \<noteq> []"
    by (auto simp: endsWith_def)
  have r: "validateAndSanitizePath p =
      (if s = [] then ''unknown.txt''
       else if \<not> includesStr t ''.'' \<and> \<not> endsWith t ''/'' then t @ ''.txt'' else t)"
    unfolding Some validateAndSanitizePath_def Let_def t_def by simp
  show ?thesis
  proof (cases "s = []")
    case True
    with r lits show ?thesis by simp
  next
    case False
    show ?thesis
    proof (cases "\<not> includesStr t ''.'' \<and> \<not> endsWith t ''/''")
      case True
      with r False have "validateAndSanitizePath p = t @ ''.txt''" by simp
      with clean lits show ?thesis by (simp del: set_append add: ball_Un set_append)
    next
      case no: False
      with r False have eq: "validateAndSanitizePath p = t" by simp
      from no dot slash have "t \<noteq> []" by blast
      with eq clean show ?thesis by simp
    qed
  qed
qed

text \<open>
  Claim C4.  The claim says that the result never has a \<^verbatim>\<open>..\<close> segment.  The two dots
  are removed before the characters \<^verbatim>\<open><>:"|?*\<close> are, so a forbidden character between
  two dots leaves \<^verbatim>\<open>..\<close> behind: the path \<^verbatim>\<open>.<./x\<close> is sanitized to \<^verbatim>\<open>../x\<close>.
\<close>

theorem validateAndSanitizePath_keeps_dotdot:
  "validateAndSanitizePath (Some ''.<./x'') = ''../x''"
  by (simp add: validateAndSanitizePath_def trim_def trimStart_def trimEnd_def isWhitespace_def
      backslashToSlash_def forbiddenChar_def includesStr_def endsWith_def)

section \<open>Patch engine: counting\<close>

lemma applyOperation_step:
  "applyOperation (res, applied, failed) (op, i) = (res', applied', failed') \<Longrightarrow>
     applied' = applied + 1 \<and> failed' = failed \<or>
     applied' = applied \<and> failed' = failed @ [failureOf i (search op) res]"
  by (auto simp: applyOperation_def Let_def split: option.splits)

lemma foldl_applyOperation_counts:
  "foldl applyOperation (res, applied, failed) l = (res', applied', failed') \<Longrightarrow>
     applied' + length failed' = applied + length failed + length l"
proof (induction l arbitrary: res applied failed)
  case Nil
  then show ?case by simp
next
  case (Cons opi l)
  obtain op i where opi: "opi = (op, i)"
    by (cases opi)
  obtain r1 a1 f1 where step: "applyOperation (res, applied, failed) (op, i) = (r1, a1, f1)"
    by (cases "applyOperation (res, applied, failed) (op, i)")
  from applyOperation_step [OF step]
  have "a1 + length f1 = applied + length failed + 1"
    by auto
  moreover from Cons.prems have "foldl applyOperation (r1, a1, f1) l = (res', applied', failed')"
    by (simp add: opi step)
  from Cons.IH [OF this] have "applied' + length failed' = a1 + length f1 + length l" .
  ultimately show ?case by simp
qed

lemma applySearchReplace_run:
  assumes "oc \<noteq> []" and "ops \<noteq> []"
  shows "applySearchReplace (Some oc) (Some ops) =
     (case foldl applyOperation (oc, 0, []) (rev (zip (take 20 ops) [0..<length (take 20 ops)])) of
        (res, applied, failed) \<Rightarrow> \<lparr>result = Some res, appliedCount = applied, failedOps = failed\<rparr>)"
  using assms by (simp add: applySearchReplace_def Let_def)

text \<open>
  Claim C8.  \<open>applySearchReplace\<close> is a total function (no step of it can throw on strings).
  With a missing or empty original, or a missing or empty operation list, it returns the
  original unchanged with \<open>appliedCount = 0\<close> and no failed operation.  Otherwise
  \<open>appliedCount\<close> plus the number of failed operations is the number of processed
  operations, \<open>min 20 (length ops)\<close>, and every step of the loop either adds one to
  \<open>appliedCount\<close> or appends one entry to \<open>failedOps\<close>, never both.
\<close>

theorem applySearchReplace_counts:
  "applySearchReplace None operations = \<lparr>result = None, appliedCount = 0, failedOps = []\<rparr> \<and>
   applySearchReplace originalContent None
     = \<lparr>result = originalContent, appliedCount = 0, failedOps = []\<rparr> \<and>
   (oc = [] \<or> ops = [] \<longrightarrow>
      applySearchReplace (Some oc) (Some ops)
        = \<lparr>result = Some oc, appliedCount = 0, failedOps = []\<rparr>) \<and>
   (oc \<noteq> [] \<and> ops \<noteq> [] \<longrightarrow>
      appliedCount (applySearchReplace (Some oc) (Some ops)) +
      length (failedOps (applySearchReplace (Some oc) (Some ops))) = min 20 (length ops)) \<and>
   (case applyOperation (res, applied, failed) (op, i) of
      (res', applied', failed') \<Rightarrow>
        applied' = applied + 1 \<and> failed' = failed \<or>
        applied' = applied \<and> failed' = failed @ [failureOf i (search op) res])"
proof (intro conjI impI)
  show "applySearchReplace None operations = \<lparr>result = None, appliedCount = 0, failedOps = []\<rparr>"
    by (simp add: applySearchReplace_def)
  show "applySearchReplace originalContent None
     = \<lparr>result = originalContent, appliedCount = 0, failedOps = []\<rparr>"
    by (simp add: applySearchReplace_def split: option.splits)
  show "applySearchReplace (Some oc) (Some ops)
        = \<lparr>result = Some oc, appliedCount = 0, failedOps = []\<rparr>" if "oc = [] \<or> ops = []"
    using that by (auto simp: applySearchReplace_def)
  show "appliedCount (applySearchReplace (Some oc) (Some ops)) +
      length (failedOps (applySearchReplace (Some oc) (Some ops))) = min 20 (length ops)"
    if ne: "oc \<noteq> [] \<and> ops \<noteq> []"
  proof -
    let ?l = "rev (zip (take 20 ops) [0..<length (take 20 ops)])"
    obtain r a f where run: "foldl applyOperation (oc, 0, []) ?l = (r, a, f)"
      by (cases "foldl applyOperation (oc, 0, []) ?l")
    from foldl_applyOperation_counts [OF run] have "a + length f = min 20 (length ops)"
      by (simp add: min.commute)
    with ne run show ?thesis
      by (simp add: applySearchReplace_run)
  qed
  show "case applyOperation (res, applied, failed) (op, i) of
      (res', applied', failed') \<Rightarrow>
        applied' = applied + 1 \<and> failed' = failed \<or>
        applied' = applied \<and> failed' = failed @ [failureOf i (search op) res]"
    using applyOperation_step [of res applied failed op i]
    by (cases "applyOperation (res, applied, failed) (op, i)") auto
qed

text \<open>The theorem of C8 at two operations of which one fails, and at an empty original.\<close>

theorem applySearchReplace_counts_witness:
  "appliedCount (applySearchReplace (Some ''ba'')
       (Some [\<lparr>search = ''zz'', replace = ''c''\<rparr>, \<lparr>search = ''a'', replace = ''b''\<rparr>])) = 1 \<and>
   length (failedOps (applySearchReplace (Some ''ba'')
       (Some [\<lparr>search = ''zz'', replace = ''c''\<rparr>, \<lparr>search = ''a'', replace = ''b''\<rparr>]))) = 1 \<and>
   applySearchReplace (Some []) (Some [\<lparr>search = ''a'', replace = ''b''\<rparr>])
     = \<lparr>result = Some [], appliedCount = 0, failedOps = []\<rparr>"
proof -
  let ?ops = "[\<lparr>search = ''zz'', replace = ''c''\<rparr>, \<lparr>search = ''a'', replace = ''b''\<rparr>]"
  note inst = applySearchReplace_counts [of _ _ "''ba''" ?ops]
  have "''ba'' \<noteq> [] \<and> ?ops \<noteq> []" by simp
  with inst have total: "appliedCount (applySearchReplace (Some ''ba'') (Some ?ops)) +
      length (failedOps (applySearchReplace (Some ''ba'') (Some ?ops))) = min 20 (length ?ops)"
    by blast
  have one: "appliedCount (applySearchReplace (Some ''ba'') (Some ?ops)) = 1"
    by (simp add: applySearchReplace_def applyOperation_def lastIndexOf_def Let_def
        normalizeForComparison_def trim_def trimStart_def trimEnd_def isWhitespace_def upt_rec)
  from total one have two: "length (failedOps (applySearchReplace (Some ''ba'') (Some ?ops))) = 1"
    by simp
  have "([]::string) = [] \<or> [\<lparr>search = ''a'', replace = ''b''\<rparr>] = []" by simp
  with applySearchReplace_counts [of _ _ "[]" "[\<lparr>search = ''a'', replace = ''b''\<rparr>]"]
  have "applySearchReplace (Some []) (Some [\<lparr>search = ''a'', replace = ''b''\<rparr>])
     = \<lparr>result = Some [], appliedCount = 0, failedOps = []\<rparr>"
    by blast
  with one two show ?thesis by simp
qed

section \<open>Patch engine: a single operation\<close>

lemma applySearchReplace_single_exact:
  assumes "T \<noteq> []" and "lastIndexOf T S = Some i"
  shows "applySearchReplace (Some T) (Some [\<lparr>search = S, replace = R\<rparr>]) =
     \<lparr>result = Some (take i T @ R @ drop (i + length S) T), appliedCount = 1, failedOps = []\<rparr>"
  using assms by (simp add: applySearchReplace_def applyOperation_def)

text \<open>
  Claim C1, amended: for every non-empty text \<open>T\<close> and single operation with search text
  \<open>S\<close> and replacement \<open>R\<close>, if \<open>i\<close> is the rightmost index at which \<open>S\<close> occurs in \<open>T\<close>,
  the result is \<open>T\<close> with the occurrence at \<open>i\<close> replaced by \<open>R\<close>, and
  \<open>appliedCount = 1\<close>; in particular when \<open>S\<close> occurs in \<open>T\<close> at \<open>i\<close> only.
\<close>

theorem applySearchReplace_single:
  assumes "T \<noteq> []"
  shows
    "(occursAt S T i \<and> (\<forall>j>i. \<not> occursAt S T j) \<longrightarrow>
        applySearchReplace (Some T) (Some [\<lparr>search = S, replace = R\<rparr>]) =
          \<lparr>result = Some (take i T @ R @ drop (i + length S) T), appliedCount = 1,
           failedOps = []\<rparr>) \<and>
     (occursAt S T i \<and> (\<forall>j. occursAt S T j \<longrightarrow> j = i) \<longrightarrow>
        applySearchReplace (Some T) (Some [\<lparr>search = S, replace = R\<rparr>]) =
          \<lparr>result = Some (take i T @ R @ drop (i + length S) T), appliedCount = 1,
           failedOps = []\<rparr>)"
proof (intro conjI impI)
  assume "occursAt S T i \<and> (\<forall>j>i. \<not> occursAt S T j)"
  then have "lastIndexOf T S = Some i"
    by (simp add: lastIndexOf_Some)
  with assms show "applySearchReplace (Some T) (Some [\<lparr>search = S, replace = R\<rparr>]) =
          \<lparr>result = Some (take i T @ R @ drop (i + length S) T), appliedCount = 1,
           failedOps = []\<rparr>"
    by (rule applySearchReplace_single_exact)
next
  assume "occursAt S T i \<and> (\<forall>j. occursAt S T j \<longrightarrow> j = i)"
  then have "occursAt S T i \<and> (\<forall>j>i. \<not> occursAt S T j)"
    by auto
  then have "lastIndexOf T S = Some i"
    by (simp add: lastIndexOf_Some)
  with assms show "applySearchReplace (Some T) (Some [\<lparr>search = S, replace = R\<rparr>]) =
          \<lparr>result = Some (take i T @ R @ drop (i + length S) T), appliedCount = 1,
           failedOps = []\<rparr>"
    by (rule applySearchReplace_single_exact)
qed

lemma occursAt_only: "{j. occursAt ''b'' ''abc'' j} = {1}"
proof -
  have "occursAt ''b'' ''abc'' j \<longleftrightarrow> j = 1" for j
  proof (cases "j < 3")
    case True
    then have "j = 0 \<or> j = 1 \<or> j = 2" by auto
    then show ?thesis by (auto simp: occursAt_def)
  next
    case False
    then show ?thesis by (auto simp: occursAt_def)
  qed
  then show ?thesis by auto
qed

text \<open>The theorem of C1 at the text \<open>abc\<close> and the search text \<open>b\<close>.\<close>

theorem applySearchReplace_single_witness:
  "''abc'' \<noteq> [] \<and> {j. occursAt ''b'' ''abc'' j} = {1} \<and>
   applySearchReplace (Some ''abc'') (Some [\<lparr>search = ''b'', replace = ''XY''\<rparr>]) =
     \<lparr>result = Some ''aXYc'', appliedCount = 1, failedOps = []\<rparr>"
proof -
  have ne: "''abc'' \<noteq> []" by simp
  have once: "occursAt ''b'' ''abc'' 1 \<and> (\<forall>j. occursAt ''b'' ''abc'' j \<longrightarrow> j = 1)"
    using occursAt_only by auto
  from applySearchReplace_single [OF ne, of "''b''" 1 "''XY''", THEN conjunct2] once
  have "applySearchReplace (Some ''abc'') (Some [\<lparr>search = ''b'', replace = ''XY''\<rparr>]) =
          \<lparr>result = Some (take 1 ''abc'' @ ''XY'' @ drop (1 + length ''b'') ''abc''),
           appliedCount = 1, failedOps = []\<rparr>"
    by blast
  then have "applySearchReplace (Some ''abc'') (Some [\<lparr>search = ''b'', replace = ''XY''\<rparr>]) =
     \<lparr>result = Some ''aXYc'', appliedCount = 1, failedOps = []\<rparr>"
    by simp
  with occursAt_only show ?thesis by simp
qed

text \<open>
  Claim C1 as stated fails for the empty text: the empty search text occurs in it exactly
  once (at index 0), but the guard on a falsy original returns it unchanged with
  \<open>appliedCount = 0\<close>.
\<close>

theorem applySearchReplace_single_empty_counterexample:
  "{j. occursAt [] [] j} = {0} \<and>
   applySearchReplace (Some []) (Some [\<lparr>search = [], replace = ''x''\<rparr>]) =
     \<lparr>result = Some [], appliedCount = 0, failedOps = []\<rparr>"
  by (auto simp: occursAt_def applySearchReplace_def)

section \<open>Patch engine: two operations\<close>

lemma occursAt_middle: "occursAt S (P @ S @ C) (length P)"
  by (simp add: occursAt_def)

lemma splice_middle:
  "take (length P) (P @ S @ C) @ R @ drop (length P + length S) (P @ S @ C) = P @ R @ C"
  by simp

lemma occursAt_split:
  assumes "occursAt S T i"
  shows "T = take i T @ S @ drop (i + length S) T"
proof -
  from assms have len: "i + length S \<le> length T" and eq: "take (length S) (drop i T) = S"
    by (simp_all add: occursAt_def)
  have "drop i T = take (length S) (drop i T) @ drop (length S) (drop i T)"
    by (rule append_take_drop_id [symmetric])
  also have "\<dots> = S @ drop (i + length S) T"
    by (simp only: eq drop_drop add.commute)
  finally have "take i T @ drop i T = take i T @ S @ drop (i + length S) T"
    by simp
  then show ?thesis
    by (simp only: append_take_drop_id)
qed

lemma occursAt_drop_prefix:
  assumes "occursAt S (P @ D) i" and "length P \<le> i"
  shows "occursAt S D (i - length P)"
  using assms by (auto simp: occursAt_def)

lemma two_occurrences_split:
  assumes o1: "occursAt S1 T i1" and o2: "occursAt S2 T i2" and ord: "i1 + length S1 \<le> i2"
  shows "\<exists>A B C. T = A @ S1 @ B @ S2 @ C \<and> length A = i1 \<and> length A + length S1 + length B = i2"
proof -
  define A where "A = take i1 T"
  define D where "D = drop (i1 + length S1) T"
  from o1 have lenA: "length A = i1"
    by (simp add: A_def occursAt_def)
  from occursAt_split [OF o1] have T: "T = (A @ S1) @ D"
    by (simp add: A_def D_def)
  from o2 T have "occursAt S2 ((A @ S1) @ D) i2" by simp
  from occursAt_drop_prefix [OF this] ord lenA
  have o2': "occursAt S2 D (i2 - length (A @ S1))" by simp
  define B where "B = take (i2 - length (A @ S1)) D"
  define C where "C = drop (i2 - length (A @ S1) + length S2) D"
  from occursAt_split [OF o2'] have D: "D = B @ S2 @ C"
    by (simp add: B_def C_def)
  from o2' have "length B = i2 - length (A @ S1)"
    by (simp add: B_def occursAt_def)
  with ord lenA have "length A + length S1 + length B = i2" by simp
  with T D lenA show ?thesis by auto
qed

lemma applySearchReplace_two:
  assumes "T \<noteq> []"
    and "lastIndexOf T (search b) = Some i"
    and "take i T @ replace b @ drop (i + length (search b)) T = T'"
    and "lastIndexOf T' (search a) = Some k"
  shows "applySearchReplace (Some T) (Some [a, b]) =
     \<lparr>result = Some (take k T' @ replace a @ drop (k + length (search a)) T'),
      appliedCount = 2, failedOps = []\<rparr>"
proof -
  have idx: "[0..<length (take 20 [a, b])] = [0, 1]"
    by (simp add: upt_rec)
  show ?thesis
    using assms
    by (simp add: applySearchReplace_def Let_def idx applyOperation_def)
qed

text \<open>The code replaces the rightmost occurrence of a search text.  When the rightmost
  occurrences of two search texts do not overlap, and each is still the rightmost occurrence
  of its search text after the other one has been replaced, the text splits around the two
  occurrences, and so do the two intermediate texts.\<close>

lemma ordered_rightmost_split:
  assumes l1: "lastIndexOf T S1 = Some i1" and l2: "lastIndexOf T S2 = Some i2"
    and ord: "i1 + length S1 \<le> i2"
    and k1: "lastIndexOf (take i2 T @ R2 @ drop (i2 + length S2) T) S1 = Some i1"
    and k2: "lastIndexOf (take i1 T @ R1 @ drop (i1 + length S1) T) S2
               = Some (i2 + length R1 - length S1)"
  shows "\<exists>A B C. T = A @ S1 @ B @ S2 @ C \<and>
     lastIndexOf T S1 = Some (length A) \<and>
     lastIndexOf T S2 = Some (length (A @ S1 @ B)) \<and>
     lastIndexOf (A @ S1 @ B @ R2 @ C) S1 = Some (length A) \<and>
     lastIndexOf (A @ R1 @ B @ S2 @ C) S2 = Some (length (A @ R1 @ B))"
proof -
  from l1 have o1: "occursAt S1 T i1" by (simp add: lastIndexOf_Some)
  from l2 have o2: "occursAt S2 T i2" by (simp add: lastIndexOf_Some)
  from two_occurrences_split [OF o1 o2 ord] obtain A B C where
    T: "T = A @ S1 @ B @ S2 @ C" and lA: "length A = i1"
    and lP: "length A + length S1 + length B = i2" by blast
  let ?P = "A @ S1 @ B" and ?Q = "A @ R1 @ B"
  have iP: "i2 = length ?P" using lP by simp
  have iQ: "i2 + length R1 - length S1 = length ?Q" using lP by simp
  have sp2: "take i2 T @ R2 @ drop (i2 + length S2) T = A @ S1 @ B @ R2 @ C"
    unfolding iP T using splice_middle [of ?P S2 C R2] by simp
  have sp1: "take i1 T @ R1 @ drop (i1 + length S1) T = A @ R1 @ B @ S2 @ C"
    unfolding lA [symmetric] T using splice_middle [of A S1 "B @ S2 @ C" R1] by simp
  from l1 have a: "lastIndexOf T S1 = Some (length A)" unfolding lA .
  from l2 have b: "lastIndexOf T S2 = Some (length ?P)" unfolding iP .
  from k1 have c: "lastIndexOf (A @ S1 @ B @ R2 @ C) S1 = Some (length A)"
    unfolding sp2 lA .
  from k2 have d: "lastIndexOf (A @ R1 @ B @ S2 @ C) S2 = Some (length ?Q)"
    unfolding sp1 iQ .
  from T a b c d show ?thesis by blast
qed

lemma ordered_rightmost_results:
  assumes ne: "T \<noteq> []"
    and l1: "lastIndexOf T S1 = Some i1" and l2: "lastIndexOf T S2 = Some i2"
    and ord: "i1 + length S1 \<le> i2"
    and k1: "lastIndexOf (take i2 T @ R2 @ drop (i2 + length S2) T) S1 = Some i1"
    and k2: "lastIndexOf (take i1 T @ R1 @ drop (i1 + length S1) T) S2
               = Some (i2 + length R1 - length S1)"
  shows "\<exists>A B C. T = A @ S1 @ B @ S2 @ C \<and> length A = i1 \<and>
     applySearchReplace (Some T) (Some [\<lparr>search = S1, replace = R1\<rparr>, \<lparr>search = S2, replace = R2\<rparr>])
       = \<lparr>result = Some (A @ R1 @ B @ R2 @ C), appliedCount = 2, failedOps = []\<rparr> \<and>
     applySearchReplace (Some T) (Some [\<lparr>search = S2, replace = R2\<rparr>, \<lparr>search = S1, replace = R1\<rparr>])
       = \<lparr>result = Some (A @ R1 @ B @ R2 @ C), appliedCount = 2, failedOps = []\<rparr>"
proof -
  let ?o1 = "\<lparr>search = S1, replace = R1\<rparr>" and ?o2 = "\<lparr>search = S2, replace = R2\<rparr>"
  from ordered_rightmost_split [OF l1 l2 ord k1 k2] obtain A B C where
    T: "T = A @ S1 @ B @ S2 @ C"
    and a: "lastIndexOf T S1 = Some (length A)"
    and b: "lastIndexOf T S2 = Some (length (A @ S1 @ B))"
    and c: "lastIndexOf (A @ S1 @ B @ R2 @ C) S1 = Some (length A)"
    and d: "lastIndexOf (A @ R1 @ B @ S2 @ C) S2 = Some (length (A @ R1 @ B))"
    by blast
  let ?P = "A @ S1 @ B" and ?Q = "A @ R1 @ B"
  from a l1 have lA: "length A = i1" by simp
  have a': "lastIndexOf T (search ?o1) = Some (length A)" using a by simp
  have b': "lastIndexOf T (search ?o2) = Some (length ?P)" using b by simp
  have c': "lastIndexOf (A @ S1 @ B @ R2 @ C) (search ?o1) = Some (length A)" using c by simp
  have d': "lastIndexOf (A @ R1 @ B @ S2 @ C) (search ?o2) = Some (length ?Q)" using d by simp
  have sp2: "take (length ?P) T @ replace ?o2 @ drop (length ?P + length (search ?o2)) T
      = A @ S1 @ B @ R2 @ C"
    unfolding T using splice_middle [of ?P S2 C R2] by simp
  have sp1: "take (length A) T @ replace ?o1 @ drop (length A + length (search ?o1)) T
      = A @ R1 @ B @ S2 @ C"
    unfolding T using splice_middle [of A S1 "B @ S2 @ C" R1] by simp
  have r1: "take (length A) (A @ S1 @ B @ R2 @ C) @ replace ?o1 @
      drop (length A + length (search ?o1)) (A @ S1 @ B @ R2 @ C) = A @ R1 @ B @ R2 @ C"
    using splice_middle [of A S1 "B @ R2 @ C" R1] by simp
  have r2: "take (length ?Q) (A @ R1 @ B @ S2 @ C) @ replace ?o2 @
      drop (length ?Q + length (search ?o2)) (A @ R1 @ B @ S2 @ C) = A @ R1 @ B @ R2 @ C"
    using splice_middle [of ?Q S2 C R2] by simp
  have first: "applySearchReplace (Some T) (Some [?o1, ?o2])
       = \<lparr>result = Some (A @ R1 @ B @ R2 @ C), appliedCount = 2, failedOps = []\<rparr>"
    using applySearchReplace_two [OF ne b' sp2 c'] unfolding r1 .
  have second: "applySearchReplace (Some T) (Some [?o2, ?o1])
       = \<lparr>result = Some (A @ R1 @ B @ R2 @ C), appliedCount = 2, failedOps = []\<rparr>"
    using applySearchReplace_two [OF ne a' sp1 d'] unfolding r2 .
  from T lA first second show ?thesis by blast
qed

lemma ordered_rightmost_commute:
  assumes "lastIndexOf T S1 = Some i1" and "lastIndexOf T S2 = Some i2"
    and "i1 + length S1 \<le> i2"
    and "lastIndexOf (take i2 T @ R2 @ drop (i2 + length S2) T) S1 = Some i1"
    and "lastIndexOf (take i1 T @ R1 @ drop (i1 + length S1) T) S2
           = Some (i2 + length R1 - length S1)"
  shows "applySearchReplace (Some T) (Some [\<lparr>search = S1, replace = R1\<rparr>, \<lparr>search = S2, replace = R2\<rparr>])
       = applySearchReplace (Some T) (Some [\<lparr>search = S2, replace = R2\<rparr>, \<lparr>search = S1, replace = R1\<rparr>])"
proof (cases "T = []")
  case True
  then show ?thesis by (simp add: applySearchReplace_def)
next
  case False
  from ordered_rightmost_results [OF False assms] show ?thesis by auto
qed

text \<open>
  Claim C5, amended.  Let \<open>i1\<close> and \<open>i2\<close> be the start indices of the rightmost occurrences
  in \<open>T\<close> of the two search texts \<open>S1\<close> and \<open>S2\<close> (the occurrences that the code replaces).
  When these two occurrences do not overlap and, in the text obtained by applying either
  operation, the rightmost occurrence of the other search text is still the same occurrence
  (at the same index when it lies left of the replaced text, moved by the change of length
  when it lies right of it), both orders of the two operations give the same result.
\<close>

theorem applySearchReplace_order_independent:
  assumes "lastIndexOf T S1 = Some i1" and "lastIndexOf T S2 = Some i2"
  shows
    "(i1 + length S1 \<le> i2 \<and>
      lastIndexOf (take i2 T @ R2 @ drop (i2 + length S2) T) S1 = Some i1 \<and>
      lastIndexOf (take i1 T @ R1 @ drop (i1 + length S1) T) S2
        = Some (i2 + length R1 - length S1) \<longrightarrow>
      applySearchReplace (Some T)
        (Some [\<lparr>search = S1, replace = R1\<rparr>, \<lparr>search = S2, replace = R2\<rparr>])
      = applySearchReplace (Some T)
        (Some [\<lparr>search = S2, replace = R2\<rparr>, \<lparr>search = S1, replace = R1\<rparr>])) \<and>
     (i2 + length S2 \<le> i1 \<and>
      lastIndexOf (take i1 T @ R1 @ drop (i1 + length S1) T) S2 = Some i2 \<and>
      lastIndexOf (take i2 T @ R2 @ drop (i2 + length S2) T) S1
        = Some (i1 + length R2 - length S2) \<longrightarrow>
      applySearchReplace (Some T)
        (Some [\<lparr>search = S1, replace = R1\<rparr>, \<lparr>search = S2, replace = R2\<rparr>])
      = applySearchReplace (Some T)
        (Some [\<lparr>search = S2, replace = R2\<rparr>, \<lparr>search = S1, replace = R1\<rparr>]))"
proof (intro conjI impI)
  assume "i1 + length S1 \<le> i2 \<and>
      lastIndexOf (take i2 T @ R2 @ drop (i2 + length S2) T) S1 = Some i1 \<and>
      lastIndexOf (take i1 T @ R1 @ drop (i1 + length S1) T) S2
        = Some (i2 + length R1 - length S1)"
  then have a: "i1 + length S1 \<le> i2"
    and b: "lastIndexOf (take i2 T @ R2 @ drop (i2 + length S2) T) S1 = Some i1"
    and c: "lastIndexOf (take i1 T @ R1 @ drop (i1 + length S1) T) S2
        = Some (i2 + length R1 - length S1)"
    by simp_all
  from ordered_rightmost_commute [OF assms a b c]
  show "applySearchReplace (Some T)
        (Some [\<lparr>search = S1, replace = R1\<rparr>, \<lparr>search = S2, replace = R2\<rparr>])
      = applySearchReplace (Some T)
        (Some [\<lparr>search = S2, replace = R2\<rparr>, \<lparr>search = S1, replace = R1\<rparr>])" .
next
  assume "i2 + length S2 \<le> i1 \<and>
      lastIndexOf (take i1 T @ R1 @ drop (i1 + length S1) T) S2 = Some i2 \<and>
      lastIndexOf (take i2 T @ R2 @ drop (i2 + length S2) T) S1
        = Some (i1 + length R2 - length S2)"
  then have a: "i2 + length S2 \<le> i1"
    and b: "lastIndexOf (take i1 T @ R1 @ drop (i1 + length S1) T) S2 = Some i2"
    and c: "lastIndexOf (take i2 T @ R2 @ drop (i2 + length S2) T) S1
        = Some (i1 + length R2 - length S2)"
    by simp_all
  from ordered_rightmost_commute [OF assms(2,1) a b c]
  show "applySearchReplace (Some T)
        (Some [\<lparr>search = S1, replace = R1\<rparr>, \<lparr>search = S2, replace = R2\<rparr>])
      = applySearchReplace (Some T)
        (Some [\<lparr>search = S2, replace = R2\<rparr>, \<lparr>search = S1, replace = R1\<rparr>])"
    by simp
qed

text \<open>
  Claim C5 as stated fails: \<open>a\<close> and \<open>b\<close> occur in \<open>ba\<close> as non-overlapping substrings, and
  the operations \<open>a \<rightarrow> b\<close>, \<open>b \<rightarrow> c\<close> give \<open>cb\<close> in one order and \<open>bc\<close> in the other, since
  each operation searches the text the previous one has produced.
\<close>

theorem applySearchReplace_order_counterexample:
  "occursAt ''a'' ''ba'' 1 \<and> occursAt ''b'' ''ba'' 0 \<and>
   result (applySearchReplace (Some ''ba'')
     (Some [\<lparr>search = ''a'', replace = ''b''\<rparr>, \<lparr>search = ''b'', replace = ''c''\<rparr>])) = Some ''cb'' \<and>
   result (applySearchReplace (Some ''ba'')
     (Some [\<lparr>search = ''b'', replace = ''c''\<rparr>, \<lparr>search = ''a'', replace = ''b''\<rparr>])) = Some ''bc''"
  by (simp add: occursAt_def applySearchReplace_def applyOperation_def lastIndexOf_def Let_def upt_rec)

text \<open>The theorem of C5 at the text \<open>a a b\<close>, in which \<open>a\<close> occurs twice, with the
  operations \<open>a \<rightarrow> x\<close> and \<open>b \<rightarrow> y\<close>: once with the operation on \<open>a\<close> taken as the first one
  (its occurrence lies left of the other), once with the operation on \<open>b\<close> taken as the
  first one (its occurrence lies right of the other).  Both orders give \<open>a x y\<close>.\<close>

theorem applySearchReplace_order_independent_witness:
  "lastIndexOf ''a a b'' ''a'' = Some 2 \<and> lastIndexOf ''a a b'' ''b'' = Some 4 \<and>
   applySearchReplace (Some ''a a b'')
     (Some [\<lparr>search = ''a'', replace = ''x''\<rparr>, \<lparr>search = ''b'', replace = ''y''\<rparr>])
   = applySearchReplace (Some ''a a b'')
     (Some [\<lparr>search = ''b'', replace = ''y''\<rparr>, \<lparr>search = ''a'', replace = ''x''\<rparr>]) \<and>
   applySearchReplace (Some ''a a b'')
     (Some [\<lparr>search = ''b'', replace = ''y''\<rparr>, \<lparr>search = ''a'', replace = ''x''\<rparr>])
   = applySearchReplace (Some ''a a b'')
     (Some [\<lparr>search = ''a'', replace = ''x''\<rparr>, \<lparr>search = ''b'', replace = ''y''\<rparr>]) \<and>
   result (applySearchReplace (Some ''a a b'')
     (Some [\<lparr>search = ''a'', replace = ''x''\<rparr>, \<lparr>search = ''b'', replace = ''y''\<rparr>]))
   = Some ''a x y''"
proof -
  have h1: "lastIndexOf ''a a b'' ''a'' = Some 2" and h2: "lastIndexOf ''a a b'' ''b'' = Some 4"
    by (simp_all add: lastIndexOf_def)
  have left: "2 + length ''a'' \<le> (4::nat) \<and>
      lastIndexOf (take 4 ''a a b'' @ ''y'' @ drop (4 + length ''b'') ''a a b'') ''a'' = Some 2 \<and>
      lastIndexOf (take 2 ''a a b'' @ ''x'' @ drop (2 + length ''a'') ''a a b'') ''b''
        = Some (4 + length ''x'' - length ''a'')"
    by (simp add: lastIndexOf_def)
  from applySearchReplace_order_independent [OF h1 h2, of "''y''" "''x''"] left
  have eq1: "applySearchReplace (Some ''a a b'')
     (Some [\<lparr>search = ''a'', replace = ''x''\<rparr>, \<lparr>search = ''b'', replace = ''y''\<rparr>])
   = applySearchReplace (Some ''a a b'')
     (Some [\<lparr>search = ''b'', replace = ''y''\<rparr>, \<lparr>search = ''a'', replace = ''x''\<rparr>])"
    by blast
  have right: "2 + length ''a'' \<le> (4::nat) \<and>
      lastIndexOf (take 4 ''a a b'' @ ''y'' @ drop (4 + length ''b'') ''a a b'') ''a'' = Some 2 \<and>
      lastIndexOf (take 2 ''a a b'' @ ''x'' @ drop (2 + length ''a'') ''a a b'') ''b''
        = Some (4 + length ''x'' - length ''a'')"
    by (simp add: lastIndexOf_def)
  from applySearchReplace_order_independent [OF h2 h1, of "''x''" "''y''"] right
  have eq2: "applySearchReplace (Some ''a a b'')
     (Some [\<lparr>search = ''b'', replace = ''y''\<rparr>, \<lparr>search = ''a'', replace = ''x''\<rparr>])
   = applySearchReplace (Some ''a a b'')
     (Some [\<lparr>search = ''a'', replace = ''x''\<rparr>, \<lparr>search = ''b'', replace = ''y''\<rparr>])"
    by blast
  have r: "result (applySearchReplace (Some ''a a b'')
     (Some [\<lparr>search = ''a'', replace = ''x''\<rparr>, \<lparr>search = ''b'', replace = ''y''\<rparr>]))
   = Some ''a x y''"
    by (simp add: applySearchReplace_def applyOperation_def lastIndexOf_def Let_def upt_rec)
  from h1 h2 eq1 eq2 r show ?thesis by simp
qed

section \<open>Patch engine: the fuzzy fallback\<close>

text \<open>What holds of the fuzzy fallback: the two loops find the greatest start index of a
  matching run, and an operation whose exact search fails is applied whenever some run
  matches.\<close>

lemma compareLines_match:
  "(case compareLines sl rl of (matchFound, potentialMatch) \<Rightarrow>
      matchFound \<and> length potentialMatch = length sl) \<longleftrightarrow>
   list_all2 (\<lambda>r s. trim r = line_content s) (take (length sl) rl) sl"
proof (induction sl arbitrary: rl)
  case Nil
  show ?case by simp
next
  case (Cons s sls)
  show ?case
  proof (cases rl)
    case Nil
    then show ?thesis by simp
  next
    case (Cons r rls)
    with Cons.IH [of rls] show ?thesis
      by (cases "trim r = line_content s") (auto split: prod.splits)
  qed
qed

lemma fuzzyScan_step:
  "fuzzyScan sl rl (Suc k) = (if linesMatchAt sl rl k then Some k else fuzzyScan sl rl k)"
  using compareLines_match [of sl "drop k rl"]
  by (auto simp: linesMatchAt_def split: prod.splits)

lemma fuzzyScan_Some:
  "fuzzyScan sl rl n = Some k \<longleftrightarrow>
     k < n \<and> linesMatchAt sl rl k \<and> (\<forall>k'. k < k' \<and> k' < n \<longrightarrow> \<not> linesMatchAt sl rl k')"
proof (induction n)
  case 0
  show ?case by simp
next
  case (Suc n)
  show ?case
    unfolding fuzzyScan_step using Suc.IH
    by (cases "linesMatchAt sl rl n") (auto simp: less_Suc_eq)
qed

lemma fuzzyScan_None:
  "fuzzyScan sl rl n = None \<longleftrightarrow> (\<forall>k<n. \<not> linesMatchAt sl rl k)"
proof (induction n)
  case 0
  show ?case by simp
next
  case (Suc n)
  show ?case
    unfolding fuzzyScan_step using Suc.IH
    by (cases "linesMatchAt sl rl n") (auto simp: less_Suc_eq)
qed

lemma splitOn_nonempty: "splitOn c s \<noteq> []"
  by (induction s) (auto split: list.splits)

lemma linesMatchAt_in_range:
  assumes "linesMatchAt sl rl k" and "sl \<noteq> []"
  shows "k < length rl"
proof -
  from assms(1) have "length (take (length sl) (drop k rl)) = length sl"
    unfolding linesMatchAt_def by (rule list_all2_lengthD)
  with assms(2) show ?thesis by (cases "k < length rl") auto
qed

lemma applyOperation_fuzzy:
  assumes exact: "lastIndexOf res (search op) = None"
    and run: "linesMatchAt (normalizeForComparison (search op)) (splitOn (CHR 0x0A) res) k"
  shows "\<exists>m. linesMatchAt (normalizeForComparison (search op)) (splitOn (CHR 0x0A) res) m \<and>
     (\<forall>k'>m. \<not> linesMatchAt (normalizeForComparison (search op)) (splitOn (CHR 0x0A) res) k') \<and>
     applyOperation (res, applied, failed) (op, i) =
       (fuzzyReplace (splitOn (CHR 0x0A) res) m (length (normalizeForComparison (search op)))
          (replace op), applied + 1, failed)"
proof -
  let ?sl = "normalizeForComparison (search op)" and ?rl = "splitOn (CHR 0x0A) res"
  have sl: "?sl \<noteq> []"
    by (simp add: normalizeForComparison_def splitOn_nonempty)
  have range: "linesMatchAt ?sl ?rl j \<Longrightarrow> j < length ?rl" for j
    by (rule linesMatchAt_in_range [OF _ sl])
  from run range have "fuzzyScan ?sl ?rl (length ?rl) \<noteq> None"
    by (auto simp: fuzzyScan_None)
  then obtain m where m: "fuzzyScan ?sl ?rl (length ?rl) = Some m" by auto
  then have "linesMatchAt ?sl ?rl m" and "\<forall>k'>m. \<not> linesMatchAt ?sl ?rl k'"
    using range by (auto simp: fuzzyScan_Some)
  moreover from exact m have "applyOperation (res, applied, failed) (op, i) =
       (fuzzyReplace ?rl m (length ?sl) (replace op), applied + 1, failed)"
    by (simp add: applyOperation_def Let_def)
  ultimately show ?thesis by blast
qed

lemma applySearchReplace_indented_example:
  "appliedCount (applySearchReplace (Some ''  print('hi')\<newline>'')
      (Some [\<lparr>search = ''print('hi')'', replace = R\<rparr>])) = 1"
  by (simp add: applySearchReplace_def applyOperation_def lastIndexOf_def Let_def)

text \<open>
  Claim C2.  The claim says that the matched run of lines is replaced by the replacement
  text.  For the original \<^verbatim>\<open>"foo\n"\<close> and the search text \<^verbatim>\<open>"foo "\<close> the exact search
  fails, line 0 is the matched run, and the result is \<^verbatim>\<open>"bar"\<close>: the empty last line
  (the final line feed), which is outside the matched run, is lost, because the separator
  after the replacement is added only when the joined rest is a non-empty string.
\<close>

theorem applySearchReplace_fuzzy_drops_newline:
  "lastIndexOf ''foo\<newline>'' ''foo '' = None \<and>
   splitOn (CHR 0x0A) ''foo\<newline>'' = [''foo'', []] \<and>
   applySearchReplace (Some ''foo\<newline>'') (Some [\<lparr>search = ''foo '', replace = ''bar''\<rparr>]) =
     \<lparr>result = Some ''bar'', appliedCount = 1, failedOps = []\<rparr>"
  by (simp add: applySearchReplace_def applyOperation_def lastIndexOf_def Let_def
      normalizeForComparison_def fuzzyReplace_def trim_def trimStart_def trimEnd_def
      isWhitespace_def)

section \<open>Patch engine of the older snapshot\<close>

text \<open>The version without the fuzzy fallback counts in the same way, replaces the
  rightmost occurrence for a single operation, and is independent of the order of two
  operations under the same conditions.\<close>

lemma applyOperationExact_step:
  "applyOperationExact oc (res, applied, failed) (op, i) = (res', applied', failed') \<Longrightarrow>
     applied' = applied + 1 \<and> length failed' = length failed \<or>
     applied' = applied \<and> length failed' = length failed + 1"
  by (auto simp: applyOperationExact_def split: option.splits)

lemma foldl_applyOperationExact_counts:
  "foldl (applyOperationExact oc) (res, applied, failed) l = (res', applied', failed') \<Longrightarrow>
     applied' + length failed' = applied + length failed + length l"
proof (induction l arbitrary: res applied failed)
  case Nil
  then show ?case by simp
next
  case (Cons opi l)
  obtain op i where opi: "opi = (op, i)"
    by (cases opi)
  obtain r1 a1 f1 where
    step: "applyOperationExact oc (res, applied, failed) (op, i) = (r1, a1, f1)"
    by (cases "applyOperationExact oc (res, applied, failed) (op, i)")
  from applyOperationExact_step [OF step]
  have "a1 + length f1 = applied + length failed + 1"
    by auto
  moreover from Cons.prems
  have "foldl (applyOperationExact oc) (r1, a1, f1) l = (res', applied', failed')"
    by (simp add: opi step)
  from Cons.IH [OF this] have "applied' + length failed' = a1 + length f1 + length l" .
  ultimately show ?case by simp
qed

lemma applySearchReplaceExact_counts:
  "applySearchReplaceExact None operations
     = \<lparr>exact_result = None, exact_appliedCount = 0, exact_failedOps = []\<rparr>"
  "applySearchReplaceExact originalContent None
     = \<lparr>exact_result = originalContent, exact_appliedCount = 0, exact_failedOps = []\<rparr>"
  "oc = [] \<or> ops = [] \<Longrightarrow>
     applySearchReplaceExact (Some oc) (Some ops)
       = \<lparr>exact_result = Some oc, exact_appliedCount = 0, exact_failedOps = []\<rparr>"
  "oc \<noteq> [] \<Longrightarrow> ops \<noteq> [] \<Longrightarrow>
     exact_appliedCount (applySearchReplaceExact (Some oc) (Some ops)) +
     length (exact_failedOps (applySearchReplaceExact (Some oc) (Some ops)))
       = min 20 (length ops)"
proof -
  show "applySearchReplaceExact None operations
     = \<lparr>exact_result = None, exact_appliedCount = 0, exact_failedOps = []\<rparr>"
    by (simp add: applySearchReplaceExact_def)
  show "applySearchReplaceExact originalContent None
     = \<lparr>exact_result = originalContent, exact_appliedCount = 0, exact_failedOps = []\<rparr>"
    by (simp add: applySearchReplaceExact_def split: option.splits)
  show "applySearchReplaceExact (Some oc) (Some ops)
       = \<lparr>exact_result = Some oc, exact_appliedCount = 0, exact_failedOps = []\<rparr>"
    if "oc = [] \<or> ops = []"
    using that by (auto simp: applySearchReplaceExact_def)
  show "exact_appliedCount (applySearchReplaceExact (Some oc) (Some ops)) +
     length (exact_failedOps (applySearchReplaceExact (Some oc) (Some ops)))
       = min 20 (length ops)"
    if ne: "oc \<noteq> []" "ops \<noteq> []"
  proof -
    let ?l = "rev (zip (take 20 ops) [0..<length (take 20 ops)])"
    obtain r a f where run: "foldl (applyOperationExact oc) (oc, 0, []) ?l = (r, a, f)"
      by (cases "foldl (applyOperationExact oc) (oc, 0, []) ?l")
    from foldl_applyOperationExact_counts [OF run] have "a + length f = min 20 (length ops)"
      by (simp add: min.commute)
    with ne run show ?thesis
      by (simp add: applySearchReplaceExact_def Let_def)
  qed
qed

lemma applySearchReplaceExact_single:
  assumes "T \<noteq> []" and "occursAt S T i" and "\<forall>j>i. \<not> occursAt S T j"
  shows "applySearchReplaceExact (Some T) (Some [\<lparr>search = S, replace = R\<rparr>]) =
     \<lparr>exact_result = Some (take i T @ R @ drop (i + length S) T), exact_appliedCount = 1,
      exact_failedOps = []\<rparr>"
proof -
  from assms(2,3) have "lastIndexOf T S = Some i"
    by (simp add: lastIndexOf_Some)
  with assms(1) show ?thesis
    by (simp add: applySearchReplaceExact_def applyOperationExact_def)
qed

lemma applySearchReplaceExact_two:
  assumes "T \<noteq> []"
    and "lastIndexOf T (search b) = Some i"
    and "take i T @ replace b @ drop (i + length (search b)) T = T'"
    and "lastIndexOf T' (search a) = Some k"
  shows "applySearchReplaceExact (Some T) (Some [a, b]) =
     \<lparr>exact_result = Some (take k T' @ replace a @ drop (k + length (search a)) T'),
      exact_appliedCount = 2, exact_failedOps = []\<rparr>"
proof -
  have idx: "[0..<length (take 20 [a, b])] = [0, 1]"
    by (simp add: upt_rec)
  show ?thesis
    using assms
    by (simp add: applySearchReplaceExact_def Let_def idx applyOperationExact_def)
qed

text \<open>With the search texts found by the exact search, both versions do the same.\<close>

lemma applySearchReplace_two_agree:
  assumes "T \<noteq> []"
    and "lastIndexOf T (search b) = Some i"
    and "lastIndexOf (take i T @ replace b @ drop (i + length (search b)) T) (search a) = Some k"
  shows "exact_result (applySearchReplaceExact (Some T) (Some [a, b]))
           = result (applySearchReplace (Some T) (Some [a, b])) \<and>
         exact_appliedCount (applySearchReplaceExact (Some T) (Some [a, b]))
           = appliedCount (applySearchReplace (Some T) (Some [a, b]))"
  using applySearchReplaceExact_two [OF assms(1,2) refl assms(3)]
    applySearchReplace_two [OF assms(1,2) refl assms(3)]
  by simp

lemma ordered_rightmost_results_exact:
  assumes ne: "T \<noteq> []"
    and l1: "lastIndexOf T S1 = Some i1" and l2: "lastIndexOf T S2 = Some i2"
    and ord: "i1 + length S1 \<le> i2"
    and k1: "lastIndexOf (take i2 T @ R2 @ drop (i2 + length S2) T) S1 = Some i1"
    and k2: "lastIndexOf (take i1 T @ R1 @ drop (i1 + length S1) T) S2
               = Some (i2 + length R1 - length S1)"
  shows "\<exists>A B C. T = A @ S1 @ B @ S2 @ C \<and> length A = i1 \<and>
     applySearchReplaceExact (Some T)
         (Some [\<lparr>search = S1, replace = R1\<rparr>, \<lparr>search = S2, replace = R2\<rparr>])
       = \<lparr>exact_result = Some (A @ R1 @ B @ R2 @ C), exact_appliedCount = 2,
          exact_failedOps = []\<rparr> \<and>
     applySearchReplaceExact (Some T)
         (Some [\<lparr>search = S2, replace = R2\<rparr>, \<lparr>search = S1, replace = R1\<rparr>])
       = \<lparr>exact_result = Some (A @ R1 @ B @ R2 @ C), exact_appliedCount = 2,
          exact_failedOps = []\<rparr>"
proof -
  let ?o1 = "\<lparr>search = S1, replace = R1\<rparr>" and ?o2 = "\<lparr>search = S2, replace = R2\<rparr>"
  from ordered_rightmost_split [OF l1 l2 ord k1 k2] obtain A B C where
    T: "T = A @ S1 @ B @ S2 @ C"
    and a: "lastIndexOf T S1 = Some (length A)"
    and b: "lastIndexOf T S2 = Some (length (A @ S1 @ B))"
    and c: "lastIndexOf (A @ S1 @ B @ R2 @ C) S1 = Some (length A)"
    and d: "lastIndexOf (A @ R1 @ B @ S2 @ C) S2 = Some (length (A @ R1 @ B))"
    by blast
  let ?P = "A @ S1 @ B" and ?Q = "A @ R1 @ B"
  from a l1 have lA: "length A = i1" by simp
  have a': "lastIndexOf T (search ?o1) = Some (length A)" using a by simp
  have b': "lastIndexOf T (search ?o2) = Some (length ?P)" using b by simp
  have c': "lastIndexOf (A @ S1 @ B @ R2 @ C) (search ?o1) = Some (length A)" using c by simp
  have d': "lastIndexOf (A @ R1 @ B @ S2 @ C) (search ?o2) = Some (length ?Q)" using d by simp
  have sp2: "take (length ?P) T @ replace ?o2 @ drop (length ?P + length (search ?o2)) T
      = A @ S1 @ B @ R2 @ C"
    unfolding T using splice_middle [of ?P S2 C R2] by simp
  have sp1: "take (length A) T @ replace ?o1 @ drop (length A + length (search ?o1)) T
      = A @ R1 @ B @ S2 @ C"
    unfolding T using splice_middle [of A S1 "B @ S2 @ C" R1] by simp
  have r1: "take (length A) (A @ S1 @ B @ R2 @ C) @ replace ?o1 @
      drop (length A + length (search ?o1)) (A @ S1 @ B @ R2 @ C) = A @ R1 @ B @ R2 @ C"
    using splice_middle [of A S1 "B @ R2 @ C" R1] by simp
  have r2: "take (length ?Q) (A @ R1 @ B @ S2 @ C) @ replace ?o2 @
      drop (length ?Q + length (search ?o2)) (A @ R1 @ B @ S2 @ C) = A @ R1 @ B @ R2 @ C"
    using splice_middle [of ?Q S2 C R2] by simp
  have first: "applySearchReplaceExact (Some T) (Some [?o1, ?o2])
       = \<lparr>exact_result = Some (A @ R1 @ B @ R2 @ C), exact_appliedCount = 2,
          exact_failedOps = []\<rparr>"
    using applySearchReplaceExact_two [OF ne b' sp2 c'] unfolding r1 .
  have second: "applySearchReplaceExact (Some T) (Some [?o2, ?o1])
       = \<lparr>exact_result = Some (A @ R1 @ B @ R2 @ C), exact_appliedCount = 2,
          exact_failedOps = []\<rparr>"
    using applySearchReplaceExact_two [OF ne a' sp1 d'] unfolding r2 .
  from T lA first second show ?thesis by blast
qed

text \<open>The older snapshot is independent of the order under the same conditions on the
  rightmost occurrences.\<close>

lemma applySearchReplaceExact_rightmost_commute:
  assumes "lastIndexOf T S1 = Some i1" and "lastIndexOf T S2 = Some i2"
    and "i1 + length S1 \<le> i2"
    and "lastIndexOf (take i2 T @ R2 @ drop (i2 + length S2) T) S1 = Some i1"
    and "lastIndexOf (take i1 T @ R1 @ drop (i1 + length S1) T) S2
           = Some (i2 + length R1 - length S1)"
  shows "applySearchReplaceExact (Some T)
           (Some [\<lparr>search = S1, replace = R1\<rparr>, \<lparr>search = S2, replace = R2\<rparr>])
       = applySearchReplaceExact (Some T)
           (Some [\<lparr>search = S2, replace = R2\<rparr>, \<lparr>search = S1, replace = R1\<rparr>])"
proof (cases "T = []")
  case True
  then show ?thesis by (simp add: applySearchReplaceExact_def)
next
  case False
  from ordered_rightmost_results_exact [OF False assms] show ?thesis by auto
qed

lemma applySearchReplaceExact_examples:
  "applySearchReplaceExact (Some []) (Some [\<lparr>search = [], replace = ''x''\<rparr>]) =
     \<lparr>exact_result = Some [], exact_appliedCount = 0, exact_failedOps = []\<rparr>"
  "exact_result (applySearchReplaceExact (Some ''ba'')
     (Some [\<lparr>search = ''a'', replace = ''b''\<rparr>, \<lparr>search = ''b'', replace = ''c''\<rparr>])) = Some ''cb''"
  "exact_result (applySearchReplaceExact (Some ''ba'')
     (Some [\<lparr>search = ''b'', replace = ''c''\<rparr>, \<lparr>search = ''a'', replace = ''b''\<rparr>])) = Some ''bc''"
  by (simp_all add: applySearchReplaceExact_def applyOperationExact_def lastIndexOf_def Let_def
      upt_rec)

section \<open>Response parser: the number of operations\<close>

lemma searchReplaceLoop_length:
  "length ops \<le> 10 \<Longrightarrow> length (searchReplaceLoop str lastIndex ops) \<le> 10"
proof (induction str lastIndex ops rule: searchReplaceLoop.induct)
  case (1 str lastIndex ops)
  show ?case
  proof (cases "exec searchReplaceRegex str lastIndex")
    case None
    with 1 show ?thesis by (simp add: searchReplaceLoop.simps [of str lastIndex ops])
  next
    case (Some m)
    show ?thesis
    proof (cases "length ops < 10")
      case True
      with Some "1.IH" [OF Some True] show ?thesis
        by (simp add: searchReplaceLoop.simps [of str lastIndex ops])
    next
      case False
      with Some 1 show ?thesis
        by (simp add: searchReplaceLoop.simps [of str lastIndex ops])
    qed
  qed
qed

lemma parseSearchReplace_length: "length (parseSearchReplace str) \<le> 10"
  by (simp add: parseSearchReplace_def searchReplaceLoop_length)

lemma editBlockLoop_length:
  "length editBlocks \<le> 5 \<Longrightarrow> length (editBlockLoop msg lastIndex editBlocks) \<le> 5"
proof (induction msg lastIndex editBlocks rule: editBlockLoop.induct)
  case (1 msg lastIndex editBlocks)
  show ?case
  proof (cases "exec editBlockRegex msg lastIndex")
    case None
    with 1 show ?thesis by (simp add: editBlockLoop.simps [of msg lastIndex editBlocks])
  next
    case (Some m)
    show ?thesis
    proof (cases "length editBlocks < 5")
      case True
      with Some "1.IH" [OF Some True] show ?thesis
        by (simp add: editBlockLoop.simps [of msg lastIndex editBlocks])
    next
      case False
      with Some 1 show ?thesis
        by (simp add: editBlockLoop.simps [of msg lastIndex editBlocks])
    qed
  qed
qed

lemma opsTotal_append [simp]: "opsTotal (gs @ hs) = opsTotal gs + opsTotal hs"
  by (simp add: opsTotal_def)

lemma opsTotal_appendOperations:
  "opsTotal (appendOperations p ops gs) \<le> opsTotal gs + length ops"
  by (induction gs) (auto simp: opsTotal_def)

lemma processEditBlock_total:
  assumes "processEditBlock ids (rc, gs) block = Inr (rc', gs')"
  shows "opsTotal gs' \<le> opsTotal gs + 10"
proof -
  obtain targetFile editContent where
    loc: "locateFileMarker (block_content block) = (targetFile, editContent)"
    by (cases "locateFileMarker (block_content block)")
  let ?ops = "parseSearchReplace editContent"
  have len: "length ?ops \<le> 10" by (rule parseSearchReplace_length)
  have app: "opsTotal (appendOperations p ?ops gs) \<le> opsTotal gs + 10" for p
    using opsTotal_appendOperations [of p ?ops gs] len by simp
  from assms loc len app show ?thesis
    by (auto simp: processEditBlock_def Let_def opsTotal_def split: if_splits sum.splits)
qed

lemma processEditBlocks_total:
  "processEditBlocks ids (rc, gs) blocks = Inr (rc', gs') \<Longrightarrow>
     opsTotal gs' \<le> opsTotal gs + 10 * length blocks"
proof (induction blocks arbitrary: rc gs)
  case Nil
  then show ?case by simp
next
  case (Cons block blocks)
  from Cons.prems obtain rc1 gs1 where
    step: "processEditBlock ids (rc, gs) block = Inr (rc1, gs1)"
    and rest: "processEditBlocks ids (rc1, gs1) blocks = Inr (rc', gs')"
    by (auto split: sum.splits)
  from processEditBlock_total [OF step] Cons.IH [OF rest] show ?case by simp
qed

lemma member_le_opsTotal: "g \<in> set gs \<Longrightarrow> length (edit_operations g) \<le> opsTotal gs"
  unfolding opsTotal_def by (induction gs) auto

lemma parseBody_edits:
  assumes "parseBody ids msg = Inr r" and "g \<in> set (parsed_edits r)"
  shows "length (edit_operations g) \<le> 50"
proof -
  define lm where "lm = (if length msg > 50000
             then take 50000 msg @ ''\<newline>... (truncated for performance)'' else msg)"
  define blocks where "blocks = editBlockLoop lm 0 []"
  have nblocks: "length blocks \<le> 5"
    unfolding blocks_def by (rule editBlockLoop_length) simp
  from assms(1) obtain rc gs where
    run: "processEditBlocks ids (lm, []) blocks = Inr (rc, gs)" and e: "parsed_edits r = take 5 gs"
    unfolding parseBody_def Let_def lm_def [symmetric] blocks_def [symmetric]
    by (auto split: sum.splits prod.splits)
  from processEditBlocks_total [OF run] nblocks have "opsTotal gs \<le> 50"
    by (simp add: opsTotal_def)
  moreover from assms(2) e have "g \<in> set gs"
    by (auto dest: in_set_takeD)
  ultimately show ?thesis
    using member_le_opsTotal [of g gs] by simp
qed

text \<open>
  Claim C3, amended: every edit group in the list of edits returned by the parser has at
  most 50 operations, and one edit block yields at most 10 operations.  The cap of 10 is
  per block; at most 5 blocks are read from a message, and the blocks that declare the
  same path are merged into one group with their operations concatenated.
\<close>

theorem parseLLMResponse_operations_bound:
  "(\<forall>g\<in>set (parsed_edits (parseLLMResponse ids message)). length (edit_operations g) \<le> 50) \<and>
   length (parseSearchReplace blockContent) \<le> 10"
proof
  show "\<forall>g\<in>set (parsed_edits (parseLLMResponse ids message)). length (edit_operations g) \<le> 50"
  proof
    fix g
    assume g: "g \<in> set (parsed_edits (parseLLMResponse ids message))"
    show "length (edit_operations g) \<le> 50"
    proof (cases message)
      case None
      with g show ?thesis by (simp add: parseLLMResponse_def)
    next
      case (Some msg)
      show ?thesis
      proof (cases "parseBody ids msg")
        case (Inl e)
        with g Some show ?thesis
          by (cases e) (simp add: parseLLMResponse_def split: if_splits)
      next
        case (Inr r)
        with g Some have "msg = [] \<or> g \<in> set (parsed_edits r)"
          by (simp add: parseLLMResponse_def split: if_splits)
        with g Some parseBody_edits [OF Inr] show ?thesis
          by (auto simp: parseLLMResponse_def)
      qed
    qed
  qed
  show "length (parseSearchReplace blockContent) \<le> 10"
    by (rule parseSearchReplace_length)
qed

lemma one_block_parsed:
  "map (\<lambda>g. (edit_path g, length (edit_operations g)))
     (parsed_edits (parseLLMResponse fixedIds (Some (exampleEditBlock 1)))) = [(''a.js'', 1)]"
  by code_simp

lemma one_block_throws:
  "parseBody failingIds (exampleEditBlock 1) = Inl (Thrown ''performance is not defined'')"
  by code_simp

text \<open>The theorem of C3 at a message with one edit block of one operation.\<close>

theorem parseLLMResponse_operations_bound_witness:
  "\<exists>g. g \<in> set (parsed_edits (parseLLMResponse fixedIds (Some (exampleEditBlock 1)))) \<and>
       length (edit_operations g) \<le> 50"
proof -
  let ?edits = "parsed_edits (parseLLMResponse fixedIds (Some (exampleEditBlock 1)))"
  from one_block_parsed obtain g where g: "g \<in> set ?edits"
    by (cases ?edits) auto
  with parseLLMResponse_operations_bound [of fixedIds "Some (exampleEditBlock 1)"]
  have "length (edit_operations g) \<le> 50" by blast
  with g show ?thesis by blast
qed

text \<open>
  Claim C3 as stated fails: two edit blocks that declare \<^verbatim>\<open>a.js\<close>, with 6 and 5
  operations, are merged into one edit group with 11 operations.
\<close>

theorem parseLLMResponse_merged_blocks_counterexample:
  "map (\<lambda>g. (edit_path g, length (edit_operations g)))
     (parsed_edits (parseLLMResponse fixedIds (Some (exampleEditBlock 6 @ exampleEditBlock 5))))
   = [(''a.js'', 11)]"
  by code_simp

section \<open>Response parser: exceptions\<close>

text \<open>An exception of the body is an exception of the identifier source: no other step
  of the body can throw.\<close>

lemma generateSafeId_Inl: "generateSafeId ids n base = Inl e \<Longrightarrow> \<exists>k. ids k = Inl e"
  by (auto simp: generateSafeId_def split: sum.splits)

lemma processEditBlock_Inl:
  "processEditBlock ids st block = Inl e \<Longrightarrow> \<exists>k. ids k = Inl e"
  by (auto simp: processEditBlock_def Let_def split: prod.splits if_splits sum.splits
      dest: generateSafeId_Inl)

lemma processEditBlocks_Inl:
  "processEditBlocks ids st blocks = Inl e \<Longrightarrow> \<exists>k. ids k = Inl e"
  by (induction blocks arbitrary: st) (auto split: sum.splits dest: processEditBlock_Inl)

lemma filePatternLoop_Inl:
  "filePatternLoop ids n pattern st = Inl e \<Longrightarrow> \<exists>k. ids k = Inl e"
proof (induction ids n pattern st rule: filePatternLoop.induct)
  case (1 ids n pattern arts regularContent lastIndex)
  from "1.prems" show ?case
    apply (subst (asm) filePatternLoop.simps)
    apply (auto simp: Let_def split: option.splits if_splits sum.splits
        dest: generateSafeId_Inl "1.IH")
    done
qed

lemma filePatternsLoop_Inl:
  "filePatternsLoop ids n st patterns = Inl e \<Longrightarrow> \<exists>k. ids k = Inl e"
  by (induction patterns arbitrary: st) (auto split: sum.splits dest: filePatternLoop_Inl)

lemma inlinePatternLoop_Inl:
  "inlinePatternLoop ids n pattern st = Inl e \<Longrightarrow> \<exists>k. ids k = Inl e"
proof (induction ids n pattern st rule: inlinePatternLoop.induct)
  case (1 ids n pattern arts regularContent lastIndex)
  from "1.prems" show ?case
    apply (subst (asm) inlinePatternLoop.simps)
    apply (auto simp: Let_def split: option.splits if_splits sum.splits
        dest: generateSafeId_Inl "1.IH")
    done
qed

lemma inlinePatternsLoop_Inl:
  "inlinePatternsLoop ids n st patterns = Inl e \<Longrightarrow> \<exists>k. ids k = Inl e"
  by (induction patterns arbitrary: st) (auto split: sum.splits dest: inlinePatternLoop_Inl)

lemma parseBody_Inl: "parseBody ids msg = Inl e \<Longrightarrow> \<exists>k. ids k = Inl e"
  unfolding parseBody_def Let_def
  by (auto split: sum.splits prod.splits
      dest: processEditBlocks_Inl filePatternsLoop_Inl inlinePatternsLoop_Inl)

text \<open>
  Claim C7.  \<open>parseLLMResponse\<close> returns a result for every message and identifier
  source.  When a step of the body throws, the result has the original message as content
  and no artifacts and no edits (the message of the exception is kept in the metadata);
  otherwise the result is that of the body.  The only step that can throw is the
  generation of an identifier.
\<close>

theorem parseLLMResponse_catches:
  "(parseBody ids msg = Inl (Thrown errorMessage) \<and> msg \<noteq> [] \<longrightarrow>
      parseLLMResponse ids (Some msg) =
        \<lparr>parsed_content = msg, parsed_artifacts = [], parsed_edits = [],
         parsed_instructions = Some [],
         parsed_metadata = Some \<lparr>totalArtifacts = 0, totalEdits = 0,
                                 parse_error = Some errorMessage\<rparr>\<rparr>) \<and>
   (parseBody ids msg = Inr r \<and> msg \<noteq> [] \<longrightarrow> parseLLMResponse ids (Some msg) = r) \<and>
   (parseBody ids msg = Inl e \<longrightarrow> (\<exists>k. ids k = Inl e))"
  using parseBody_Inl [of ids msg e] by (simp add: parseLLMResponse_def)

text \<open>The theorem of C7 at a message with one edit block, with an identifier source
  whose calls throw.\<close>

theorem parseLLMResponse_catches_witness:
  "parseBody failingIds (exampleEditBlock 1) = Inl (Thrown ''performance is not defined'') \<and>
   exampleEditBlock 1 \<noteq> [] \<and>
   parseLLMResponse failingIds (Some (exampleEditBlock 1)) =
     \<lparr>parsed_content = exampleEditBlock 1, parsed_artifacts = [], parsed_edits = [],
      parsed_instructions = Some [],
      parsed_metadata = Some \<lparr>totalArtifacts = 0, totalEdits = 0,
                              parse_error = Some ''performance is not defined''\<rparr>\<rparr>"
proof -
  have ne: "exampleEditBlock 1 \<noteq> []"
    by (simp add: exampleEditBlock_def)
  from parseLLMResponse_catches [of failingIds "exampleEditBlock 1" "''performance is not defined''"]
    one_block_throws ne
  show ?thesis by blast
qed

section \<open>Response parser: the loops over the matches go forward\<close>

text \<open>Every match of a file pattern is longer than the empty string, so the case in which
  the loops of the model stop at a skipped match never arises.\<close>

lemma stripPrefix_length: "stripPrefix l s = Some s' \<Longrightarrow> length s' + length l = length s"
  by (induction l s rule: stripPrefix.induct) (auto split: if_splits)

lemma stripPrefixI_length: "stripPrefixI l s = Some s' \<Longrightarrow> length s' + length l = length s"
  by (induction l s rule: stripPrefixI.induct) (auto split: if_splits)

lemma starGreedy_consumes:
  "starGreedy p s c k = Some v \<Longrightarrow> \<exists>s' c'. k s' c' = Some v \<and> length s' \<le> length s"
proof (induction s)
  case Nil
  then show ?case by auto
next
  case (Cons x xs)
  show ?case
  proof (cases "p x \<and> starGreedy p xs c k = Some v")
    case True
    with Cons.IH obtain s' c' where "k s' c' = Some v" "length s' \<le> length xs" by blast
    then show ?thesis by (intro exI [of _ s'] exI [of _ c']) simp
  next
    case False
    with Cons.prems have "k (x # xs) c = Some v"
      by (auto split: if_splits option.splits)
    then show ?thesis by blast
  qed
qed

lemma starLazy_consumes:
  "starLazy p s c k = Some v \<Longrightarrow> \<exists>s' c'. k s' c' = Some v \<and> length s' \<le> length s"
proof (induction s)
  case Nil
  then show ?case by auto
next
  case (Cons x xs)
  show ?case
  proof (cases "k (x # xs) c = Some v")
    case True
    then show ?thesis by blast
  next
    case False
    with Cons.prems have "starLazy p xs c k = Some v"
      by (auto split: if_splits option.splits)
    with Cons.IH obtain s' c' where "k s' c' = Some v" "length s' \<le> length xs" by blast
    then show ?thesis by (intro exI [of _ s'] exI [of _ c']) simp
  qed
qed

lemma matchRe_consumes:
  "matchRe r s c k = Some v \<Longrightarrow> \<exists>s' c'. k s' c' = Some v \<and> length s' + minLen r \<le> length s"
proof (induction r arbitrary: s c k)
  case (Chars p)
  then show ?case by (cases s) (auto split: if_splits)
next
  case (Str l)
  then obtain s' where p: "stripPrefix l s = Some s'" and "k s' c = Some v"
    by (auto split: option.splits)
  with stripPrefix_length [OF p] show ?case
    by (intro exI [of _ s'] exI [of _ c]) simp
next
  case (StrI l)
  then obtain s' where p: "stripPrefixI l s = Some s'" and "k s' c = Some v"
    by (auto split: option.splits)
  with stripPrefixI_length [OF p] show ?case
    by (intro exI [of _ s'] exI [of _ c]) simp
next
  case (Star p)
  then show ?case using starGreedy_consumes [of p s c k v] by simp
next
  case (StarLazy p)
  then show ?case using starLazy_consumes [of p s c k v] by simp
next
  case (Opt r)
  show ?case
  proof (cases "matchRe r s c k = Some v")
    case True
    from Opt.IH [OF True] show ?thesis by auto
  next
    case False
    with Opt.prems have "k s c = Some v" by (auto split: option.splits)
    then show ?thesis by auto
  qed
next
  case (Alt a b)
  show ?case
  proof (cases "matchRe a s c k = Some v")
    case True
    from Alt.IH(1) [OF True] show ?thesis by auto
  next
    case False
    with Alt.prems have "matchRe b s c k = Some v" by (auto split: option.splits)
    from Alt.IH(2) [OF this] show ?thesis by auto
  qed
next
  case (Seq a b)
  from Seq.prems have "matchRe a s c (\<lambda>s' c'. matchRe b s' c' k) = Some v" by simp
  from Seq.IH(1) [OF this] obtain s1 c1 where
    b: "matchRe b s1 c1 k = Some v" and l1: "length s1 + minLen a \<le> length s" by blast
  from Seq.IH(2) [OF b] obtain s2 c2 where
    "k s2 c2 = Some v" and "length s2 + minLen b \<le> length s1" by blast
  with l1 show ?case by (intro exI [of _ s2] exI [of _ c2]) simp
next
  case (Group i r)
  from Group.prems
  have "matchRe r s c (\<lambda>s' c'. k s' (c'(i \<mapsto> take (length s - length s') s))) = Some v"
    by simp
  from Group.IH [OF this] show ?case by auto
qed

lemma searchRe_matched:
  "searchRe r s pos = Some m \<Longrightarrow>
     pos \<le> match_index m \<and> minLen r \<le> length (matched m)"
proof (induction s arbitrary: pos)
  case Nil
  then obtain s' c where "matchRe r [] (\<lambda>_. None) (\<lambda>s' c. Some (s', c)) = Some (s', c)"
    and m: "m = \<lparr>match_index = pos, matched = [], groups = c\<rparr>"
    by (auto split: option.splits)
  from matchRe_consumes [OF this(1)] m show ?case by auto
next
  case (Cons x xs)
  show ?case
  proof (cases "matchRe r (x # xs) (\<lambda>_. None) (\<lambda>s' c. Some (s', c))")
    case None
    with Cons.prems have "searchRe r xs (Suc pos) = Some m" by simp
    from Cons.IH [OF this] show ?thesis by simp
  next
    case (Some a)
    obtain s' c where a: "a = (s', c)" by (cases a)
    from Some a Cons.prems
    have m: "m = \<lparr>match_index = pos, matched = take (length (x # xs) - length s') (x # xs),
                  groups = c\<rparr>"
      by simp
    from matchRe_consumes [OF Some [unfolded a]]
    have "length s' + minLen r \<le> length (x # xs)" by auto
    with m show ?thesis by auto
  qed
qed

lemma exec_advances:
  assumes "exec r s lastIndex = Some m" and "0 < minLen r"
  shows "lastIndex < matchEnd m"
proof -
  from assms(1) have "searchRe r (drop lastIndex s) lastIndex = Some m"
    by (simp add: exec_def split: if_splits)
  from searchRe_matched [OF this] assms(2) show ?thesis
    by (simp add: matchEnd_def)
qed

lemma patterns_nonempty:
  "\<forall>pattern\<in>set filePatterns \<union> set inlineFilePatterns. 0 < minLen pattern"
  by (simp add: filePatterns_def inlineFilePatterns_def oneOrMore_def oneOrMoreLazy_def)

lemma skipped_match_advances:
  assumes "pattern \<in> set filePatterns \<union> set inlineFilePatterns"
    and "exec pattern regularContent lastIndex = Some m"
  shows "\<not> matchEnd m \<le> lastIndex"
proof -
  from patterns_nonempty assms(1) have "0 < minLen pattern" by blast
  from exec_advances [OF assms(2) this] show ?thesis by simp
qed

end
